theory Spec2Isabelle
  imports Main "HOL-Library.Sublist"
begin

text \<open>
  A model of the preflight planner and of the deployment routine of the LivingRental Alert
  control plane (\<open>server/vps/preflight.ts\<close>, \<open>server/vps/deploy.ts\<close>), and the
  properties of the specification that concern them: the assignment of ports, the parser
  of the listening-ports table, the nginx snippet, the steps of a deployment with their
  failure behaviour, the guard of the secrets file, and the health checks.

  Pure functions of the source are functions here. The functions that talk to the remote
  host take the host as a parameter and thread the state of the session; an exception is
  the left summand of the result.
\<close>

section \<open>Placement planner (server/vps/preflight.ts)\<close>

text \<open>
  Port numbers are the non-negative integers that \<open>parseInt\<close> reads from a run of decimal
  digits, so they are modelled as \<open>nat\<close>. One row of the listening-ports table is the
  object literal pushed by \<open>parseListeningPorts\<close>.
\<close>

record port_entry =
  port :: nat
  protocol :: string
  process :: string
  state :: string

record ports =
  postgres :: nat
  n8n :: nat
  ntfy :: nat
  fetcher :: nat

text \<open>
  The \<open>for\<close> loop of \<open>findSafePort\<close>: \<open>p\<close> runs from its start value while
  \<open>p < limit\<close>; the first \<open>p\<close> that \<open>usedPorts\<close> does not include is returned, and
  \<open>None\<close> stands for leaving the loop at its end.
\<close>

function probe :: "nat \<Rightarrow> nat \<Rightarrow> nat list \<Rightarrow> nat option" where
  "probe p limit usedPorts =
     (if p < limit
      then (if p \<notin> set usedPorts then Some p else probe (p + 1) limit usedPorts)
      else None)"
  by pat_completeness auto
termination
  by (relation "measure (\<lambda>(p, limit, usedPorts). limit - p)") auto

declare probe.simps [simp del]

definition findSafePort :: "nat \<Rightarrow> nat list \<Rightarrow> nat" where
  "findSafePort preferred usedPorts =
     (if preferred \<notin> set usedPorts then preferred
      else (case probe (preferred + 1) (preferred + 100) usedPorts of
              Some p \<Rightarrow> p
            | None \<Rightarrow> preferred + 1000))"

text \<open>The "Calculate safe ports" block of \<open>runPreflightScan\<close>.\<close>

definition safePorts :: "port_entry list \<Rightarrow> ports" where
  "safePorts ps =
     (let usedPorts = map port ps in
      \<lparr> postgres = findSafePort 5432 usedPorts,
        n8n = findSafePort 5678 usedPorts,
        ntfy = findSafePort 8080 usedPorts,
        fetcher = findSafePort 3001 usedPorts \<rparr>)"

text \<open>A listening-ports table in which exactly the given port numbers are busy.\<close>

definition listening :: "nat list \<Rightarrow> port_entry list" where
  "listening ns =
     map (\<lambda>n. \<lparr> port = n, protocol = ''tcp'', process = ''unknown'', state = ''LISTEN'' \<rparr>) ns"

text \<open>
  The ports \<open>findSafePort\<close> can return for a preferred port: the preferred port and the 99
  after it, and the fallback \<open>preferred + 1000\<close>.
\<close>

definition candidates :: "nat \<Rightarrow> nat set" where
  "candidates preferred = {preferred ..< preferred + 100} \<union> {preferred + 1000}"

text \<open>A host on which ports 5432 to 5531 and port 6432 are all busy.\<close>

definition busy_block :: "port_entry list" where
  "busy_block = listening ([5432 ..< 5532] @ [6432])"

section \<open>Strings\<close>

text \<open>
  Strings are lists of 8-bit characters. The operations below are the JavaScript string
  methods the code calls, on that alphabet: \<open>isSpace\<close> is the white space of
  \<open>String.prototype.trim\<close> and of the regular expression class \<open>\s\<close> among the
  characters below 256, \<open>isDigit\<close> is the class \<open>\d\<close>.
\<close>

definition nl :: string where
  "nl = [CHR 0x0A]"

definition isSpace :: "char \<Rightarrow> bool" where
  "isSpace c = (c \<in> set [CHR 0x09, CHR 0x0A, CHR 0x0B, CHR 0x0C, CHR 0x0D, CHR 0x20, CHR 0xA0])"

definition isDigit :: "char \<Rightarrow> bool" where
  "isDigit c = (48 \<le> (of_char c :: nat) \<and> (of_char c :: nat) \<le> 57)"

text \<open>\<open>s.trim()\<close>\<close>

definition trim :: "string \<Rightarrow> string" where
  "trim s = rev (dropWhile isSpace (rev (dropWhile isSpace s)))"

text \<open>\<open>s.includes(sub)\<close>: \<open>sub\<close> occurs in \<open>s\<close> at some position.\<close>

fun str_includes :: "string \<Rightarrow> string \<Rightarrow> bool" where
  "str_includes [] sub = (sub = [])"
| "str_includes (c # cs) sub = (prefix sub (c # cs) \<or> str_includes cs sub)"

text \<open>The number of positions of \<open>s\<close> at which \<open>sub\<close> occurs.\<close>

fun occurrences :: "string \<Rightarrow> string \<Rightarrow> nat" where
  "occurrences [] sub = (if sub = [] then 1 else 0)"
| "occurrences (c # cs) sub = (if prefix sub (c # cs) then 1 else 0) + occurrences cs sub"

text \<open>\<open>s.split(sep)\<close> for a one-character separator: \<open>"".split("\n")\<close> is \<open>[""]\<close>.\<close>

fun split_char :: "char \<Rightarrow> string \<Rightarrow> string list" where
  "split_char sep [] = [[]]"
| "split_char sep (c # cs) =
     (if c = sep then [] # split_char sep cs
      else (case split_char sep cs of [] \<Rightarrow> [[c]] | t # ts \<Rightarrow> (c # t) # ts))"

text \<open>
  \<open>s.split(/\s+/)\<close>: every maximal run of white space is one separator, so a string that
  starts (ends) with white space gets an empty first (last) piece.
\<close>

function split_ws :: "string \<Rightarrow> string list" where
  "split_ws [] = [[]]"
| "split_ws (c # cs) =
     (if isSpace c then [] # split_ws (dropWhile isSpace cs)
      else (case split_ws cs of [] \<Rightarrow> [[c]] | t # ts \<Rightarrow> (c # t) # ts))"
  by pat_completeness auto
termination
  by (relation "measure length") (auto simp: length_dropWhile_le less_Suc_eq_le)

text \<open>
  \<open>s.match(/:(\d+)$/)\<close>: the search tries every start position from the left; the
  pattern matches at a position when a colon stands there and everything after it, up to
  the end of the string, is a non-empty run of digits. The result is capture group 1.
\<close>

fun portMatch :: "string \<Rightarrow> string option" where
  "portMatch [] = None"
| "portMatch (c # cs) =
     (if c = CHR '':'' \<and> cs \<noteq> [] \<and> list_all isDigit cs then Some cs else portMatch cs)"

text \<open>
  \<open>parseInt(ds, 10)\<close> on a run of decimal digits. The model gives the exact number; a
  JavaScript number is exact up to \<open>2 ^ 53\<close>, far above every port number that the
  properties below look at.
\<close>

definition parseInt :: "string \<Rightarrow> nat" where
  "parseInt ds = foldl (\<lambda>acc c. acc * 10 + (of_char c - 48)) 0 ds"

text \<open>A port number inside a template literal: its decimal digits.\<close>

function toString :: "nat \<Rightarrow> string" where
  "toString n =
     (if n < 10 then [''0123456789'' ! n]
      else toString (n div 10) @ [''0123456789'' ! (n mod 10)])"
  by pat_completeness auto
termination
  by (relation "measure id") auto

declare toString.simps [simp del]

section \<open>Listening-ports table (server/vps/preflight.ts)\<close>

text \<open>
  The body of the \<open>for\<close> loop of \<open>parseListeningPorts\<close>: \<open>acc\<close> is the array
  \<open>ports\<close>, and \<open>push\<close> appends. \<open>parts[3] || parts[4]\<close> takes \<open>parts[4]\<close> when
  \<open>parts[3]\<close> is the empty string; an index past the end gives \<open>undefined\<close>, which
  fails the test \<open>if (localAddr)\<close> as the empty string does.
\<close>

definition localAddr :: "string list \<Rightarrow> string option" where
  "localAddr parts =
     (if parts ! 3 \<noteq> [] then Some (parts ! 3)
      else if 4 < length parts \<and> parts ! 4 \<noteq> [] then Some (parts ! 4)
      else None)"

definition parseLine :: "port_entry list \<Rightarrow> string \<Rightarrow> port_entry list" where
  "parseLine acc line =
     (let parts = split_ws (trim line) in
      if 4 \<le> length parts then
        (case localAddr parts of
           None \<Rightarrow> acc
         | Some addr \<Rightarrow>
             (case portMatch addr of
                None \<Rightarrow> acc
              | Some ds \<Rightarrow>
                  acc @ [\<lparr> port = parseInt ds,
                           protocol = (if parts ! 0 \<noteq> [] then parts ! 0 else ''tcp''),
                           process = (if parts ! (length parts - 1) \<noteq> []
                                      then parts ! (length parts - 1) else ''unknown''),
                           state = ''LISTEN'' \<rparr>]))
      else acc)"

definition parseListeningPorts :: "string \<Rightarrow> port_entry list" where
  "parseListeningPorts raw =
     (let lines = drop 1 (split_char (CHR 0x0A) (trim raw)) in
      foldl parseLine [] lines)"

text \<open>
  The words of the property: the fields of a line are the pieces between runs of white
  space, a line is well formed when it has at least four of them and the fourth, the local
  address, ends in a colon followed by digits; its entry carries that number.
\<close>

definition lineFields :: "string \<Rightarrow> string list" where
  "lineFields line = split_ws (trim line)"

definition trailingDigits :: "string \<Rightarrow> string" where
  "trailingDigits s = rev (takeWhile isDigit (rev s))"

definition endsInPort :: "string \<Rightarrow> bool" where
  "endsInPort s = (trailingDigits s \<noteq> [] \<and> suffix (CHR '':'' # trailingDigits s) s)"

definition wellFormed :: "string \<Rightarrow> bool" where
  "wellFormed line = (4 \<le> length (lineFields line) \<and> endsInPort (lineFields line ! 3))"

definition entryOf :: "string \<Rightarrow> port_entry" where
  "entryOf line =
     \<lparr> port = parseInt (trailingDigits (lineFields line ! 3)),
       protocol = lineFields line ! 0,
       process = last (lineFields line),
       state = ''LISTEN'' \<rparr>"

definition tableLines :: "string \<Rightarrow> string list" where
  "tableLines raw = drop 1 (split_char (CHR 0x0A) (trim raw))"

section \<open>Proxy configuration (server/vps/preflight.ts)\<close>

text \<open>
  The template literal of \<open>generateNginxConfig\<close>, line by line; every line of the
  template ends with a line feed.
\<close>

definition generateNginxConfig :: "ports \<Rightarrow> string" where
  \<open>generateNginxConfig ports = concat [
    ''# LivingRental Alert - Nginx reverse proxy configuration'', nl,
    ''# Add this to /etc/nginx/sites-available/rentalmonitor.conf'', nl,
    ''# Then: sudo ln -s /etc/nginx/sites-available/rentalmonitor.conf /etc/nginx/sites-enabled/'', nl,
    ''# And: sudo nginx -t && sudo systemctl reload nginx'', nl,
    nl,
    ''# Main rental alert app - rentalert.sellsiren.com'', nl,
    ''server {'', nl,
    ''    listen 80;'', nl,
    ''    server_name rentalert.sellsiren.com;'', nl,
    nl,
    ''    # n8n workflow automation'', nl,
    ''    location /n8n/ {'', nl,
    ''        proxy_pass http://127.0.0.1:'', toString (n8n ports), ''/;'', nl,
    ''        proxy_http_version 1.1;'', nl,
    ''        proxy_set_header Upgrade $http_upgrade;'', nl,
    ''        proxy_set_header Connection "upgrade";'', nl,
    ''        proxy_set_header Host $host;'', nl,
    ''        proxy_set_header X-Real-IP $remote_addr;'', nl,
    ''        proxy_set_header X-Forwarded-For $proxy_add_x_forwarded_for;'', nl,
    ''        proxy_set_header X-Forwarded-Proto $scheme;'', nl,
    ''    }'', nl,
    nl,
    ''    # ntfy push notifications'', nl,
    ''    location /ntfy/ {'', nl,
    ''        proxy_pass http://127.0.0.1:'', toString (ntfy ports), ''/;'', nl,
    ''        proxy_http_version 1.1;'', nl,
    ''        proxy_set_header Upgrade $http_upgrade;'', nl,
    ''        proxy_set_header Connection "upgrade";'', nl,
    ''        proxy_set_header Host $host;'', nl,
    ''        proxy_set_header X-Real-IP $remote_addr;'', nl,
    ''    }'', nl,
    nl,
    ''    # Fetcher microservice (protect with secret header)'', nl,
    ''    location /fetcher/ {'', nl,
    ''        proxy_pass http://127.0.0.1:'', toString (fetcher ports), ''/;'', nl,
    ''        proxy_set_header Host $host;'', nl,
    ''        proxy_set_header X-Real-IP $remote_addr;'', nl,
    ''    }'', nl,
    ''}'', nl,
    nl,
    ''# Alternative: Subdomain configuration (requires DNS A records for each subdomain)'', nl,
    ''# n8n.sellsiren.com, ntfy.sellsiren.com, fetcher.sellsiren.com'', nl,
    nl,
    ''# server {'', nl,
    ''#     listen 80;'', nl,
    ''#     server_name n8n.sellsiren.com;'', nl,
    ''#     location / {'', nl,
    ''#         proxy_pass http://127.0.0.1:'', toString (n8n ports), '';'', nl,
    ''#         proxy_http_version 1.1;'', nl,
    ''#         proxy_set_header Upgrade $http_upgrade;'', nl,
    ''#         proxy_set_header Connection "upgrade";'', nl,
    ''#         proxy_set_header Host $host;'', nl,
    ''#     }'', nl,
    ''# }'', nl,
    nl,
    ''# server {'', nl,
    ''#     listen 80;'', nl,
    ''#     server_name ntfy.sellsiren.com;'', nl,
    ''#     location / {'', nl,
    ''#         proxy_pass http://127.0.0.1:'', toString (ntfy ports), '';'', nl,
    ''#         proxy_http_version 1.1;'', nl,
    ''#         proxy_set_header Upgrade $http_upgrade;'', nl,
    ''#         proxy_set_header Connection "upgrade";'', nl,
    ''#         proxy_set_header Host $host;'', nl,
    ''#     }'', nl,
    ''# }'', nl]\<close>

section \<open>Remote session (server/vps/deploy.ts)\<close>

text \<open>
  An \<open>Error\<close> is modelled by its message. The remote host is a parameter of the model: it
  decides whether the connection is established, what every command prints (or that the
  channel fails), and whether an upload fails. The files of the host are a map from paths
  to contents; a command may change them, a successful upload stores the content at its
  path, and a failed upload leaves at its path whatever the host says. The journal of a
  client records, in order, every request made through it together with its result.
\<close>

type_synonym error = string

type_synonym filesystem = "string \<rightharpoonup> string"

record SSHConfig =
  host :: string
  username :: string
  privateKey :: string

datatype event =
    Exec string "error + string"
  | Upload string string "error option"
  | End

record remote =
  connect_reply :: "SSHConfig \<Rightarrow> error option"
  exec_reply :: "filesystem \<Rightarrow> string \<Rightarrow> (error + string) \<times> filesystem"
  sftp_reply :: "filesystem \<Rightarrow> string \<Rightarrow> string \<Rightarrow> (error \<times> string option) option"

record client =
  fs :: filesystem
  journal :: "event list"

text \<open>The local array \<open>logs\<close> of \<open>deployToVPS\<close> lives next to the client.\<close>

record frame = client +
  logs_so_far :: "string list"

definition connectSSH :: "remote \<Rightarrow> SSHConfig \<Rightarrow> filesystem \<Rightarrow> error + client" where
  "connectSSH env config files =
     (case connect_reply env config of
        Some e \<Rightarrow> Inl e
      | None \<Rightarrow> Inr \<lparr> fs = files, journal = [] \<rparr>)"

text \<open>
  \<open>execCommand\<close> rejects when \<open>client.exec\<close> reports an error and otherwise resolves
  with \<open>output + errorOutput\<close>, whatever the exit status of the command.
\<close>

definition execCommand ::
  "remote \<Rightarrow> string \<Rightarrow> 'a client_scheme \<Rightarrow> (error + string) \<times> 'a client_scheme" where
  "execCommand env command c =
     (case exec_reply env (fs c) command of
        (r, files) \<Rightarrow> (r, c\<lparr> fs := files, journal := journal c @ [Exec command r] \<rparr>))"

definition uploadFile ::
  "remote \<Rightarrow> string \<Rightarrow> string \<Rightarrow> 'a client_scheme \<Rightarrow> (error + unit) \<times> 'a client_scheme" where
  "uploadFile env content remotePath c =
     (case sftp_reply env (fs c) remotePath content of
        Some (e, residue) \<Rightarrow>
          (Inl e, c\<lparr> fs := (fs c)(remotePath := residue),
                      journal := journal c @ [Upload remotePath content (Some e)] \<rparr>)
      | None \<Rightarrow>
          (Inr (), c\<lparr> fs := (fs c)(remotePath \<mapsto> content),
                       journal := journal c @ [Upload remotePath content None] \<rparr>))"

text \<open>\<open>client.end()\<close>\<close>

definition client_end :: "'a client_scheme \<Rightarrow> 'a client_scheme" where
  "client_end c = c\<lparr> journal := journal c @ [End] \<rparr>"

text \<open>
  Statements of an \<open>async\<close> function body in sequence: \<open>await\<close> of a rejected promise
  leaves the body with the error, and the statements after it are not run.
\<close>

definition andThen ::
  "('s \<Rightarrow> (error + 'a) \<times> 's) \<Rightarrow> ('a \<Rightarrow> 's \<Rightarrow> (error + 'b) \<times> 's) \<Rightarrow> 's \<Rightarrow> (error + 'b) \<times> 's" where
  "andThen m f s = (case m s of (Inl e, s') \<Rightarrow> (Inl e, s') | (Inr x, s') \<Rightarrow> f x s')"

definition returns :: "'a \<Rightarrow> 's \<Rightarrow> (error + 'a) \<times> 's" where
  "returns x s = (Inr x, s)"

definition logs_push :: "string \<Rightarrow> frame \<Rightarrow> (error + unit) \<times> frame" where
  "logs_push line f = (Inr (), f\<lparr> logs_so_far := logs_so_far f @ [line] \<rparr>)"

definition end_session :: "'a client_scheme \<Rightarrow> (error + unit) \<times> 'a client_scheme" where
  "end_session c = (Inr (), client_end c)"

section \<open>Deployment (server/vps/deploy.ts)\<close>

record ServiceStatus =
  running :: bool
  healthy :: bool

record ServiceStatusUrl = ServiceStatus +
  url :: "string option"

record Services =
  svc_postgres :: ServiceStatus
  svc_n8n :: ServiceStatusUrl
  svc_ntfy :: ServiceStatusUrl
  svc_fetcher :: ServiceStatusUrl

record DeployResult =
  success :: bool
  message :: string
  logs :: "string list"
  services :: Services

text \<open>
  The uploaded bundle. The compose manifest, the example environment file, the three files
  of the fetcher service and the README are fixed texts (the manifest and the README with
  the ports substituted, the README with the current date); no property below depends on
  what they say, so they are parameters.
\<close>

record artifacts =
  generateDockerCompose :: "ports \<Rightarrow> string"
  generateEnvExample :: string
  generateFetcherDockerfile :: string
  generateFetcherPackageJson :: string
  generateFetcherService :: string
  generateReadme :: "ports \<Rightarrow> string"

text \<open>
  \<open>generateEnvFile\<close> draws four random tokens with \<open>nanoid\<close> and reads the clock; the
  draws and the date are its parameters.
\<close>

record draws =
  postgresPassword :: string
  n8nPassword :: string
  encryptionKey :: string
  fetcherSecret :: string
  generated :: string

definition generateEnvFile :: "draws \<Rightarrow> string" where
  "generateEnvFile d = concat [
    ''# LivingRental Alert - Environment Configuration'', nl,
    ''# Generated: '', generated d, nl,
    nl,
    ''# Postgres'', nl,
    ''POSTGRES_PASSWORD='', postgresPassword d, nl,
    nl,
    ''# n8n Configuration'', nl,
    ''N8N_USER=admin'', nl,
    ''N8N_PASSWORD='', n8nPassword d, nl,
    ''N8N_ENCRYPTION_KEY='', encryptionKey d, nl,
    ''N8N_HOST=localhost'', nl,
    ''WEBHOOK_URL=http://localhost:5678'', nl,
    nl,
    ''# Fetcher Service'', nl,
    ''FETCHER_SECRET='', fetcherSecret d, nl]"

definition envPath :: string where
  "envPath = ''/opt/rentalmonitor/.env''"

definition envProbe :: string where
  "envProbe = ''test -f /opt/rentalmonitor/.env && echo 'exists' || echo 'missing'' @ [CHR 0x27]"

definition fetcherProbe :: "ports \<Rightarrow> string" where
  "fetcherProbe ports =
     ''curl -s http://127.0.0.1:'' @ toString (fetcher ports) @ ''/health 2>/dev/null || echo 'failed'' @ [CHR 0x27]"

definition ntfyProbe :: "ports \<Rightarrow> string" where
  "ntfyProbe ports =
     ''curl -s http://127.0.0.1:'' @ toString (ntfy ports) @ ''/v1/health 2>/dev/null || echo 'failed'' @ [CHR 0x27]"

definition n8nProbe :: "ports \<Rightarrow> string" where
  "n8nProbe ports =
     ''curl -s http://127.0.0.1:'' @ toString (n8n ports) @ ''/healthz 2>/dev/null || echo 'failed'' @ [CHR 0x27]"

definition postgresProbe :: string where
  "postgresProbe =
     ''docker exec rentalmonitor_postgres pg_isready -U rentalmonitor 2>/dev/null || echo 'failed'' @ [CHR 0x27]"

definition all_down :: Services where
  "all_down =
     \<lparr> svc_postgres = \<lparr> running = False, healthy = False \<rparr>,
       svc_n8n = \<lparr> running = False, healthy = False, url = None \<rparr>,
       svc_ntfy = \<lparr> running = False, healthy = False, url = None \<rparr>,
       svc_fetcher = \<lparr> running = False, healthy = False, url = None \<rparr> \<rparr>"

text \<open>
  The \<open>try\<close> block of \<open>deployToVPS\<close>. The fixed delay of ten seconds between starting
  the stack and the health checks changes nothing in the model and is left out.
\<close>

definition deploy_try :: "remote \<Rightarrow> artifacts \<Rightarrow> draws \<Rightarrow> ports \<Rightarrow> frame \<Rightarrow> (error + DeployResult) \<times> frame" where
  "deploy_try env b d ports =
     andThen (logs_push ''Connected to VPS'') (\<lambda>_.
     andThen (logs_push ''Creating directory structure...'') (\<lambda>_.
     andThen (execCommand env ''mkdir -p /opt/rentalmonitor/{fetcher,logs}'') (\<lambda>_.
     andThen (logs_push ''Uploading docker-compose.yml...'') (\<lambda>_.
     andThen (uploadFile env (generateDockerCompose b ports) ''/opt/rentalmonitor/docker-compose.yml'') (\<lambda>_.
     andThen (logs_push ''Uploading .env.example...'') (\<lambda>_.
     andThen (uploadFile env (generateEnvExample b) ''/opt/rentalmonitor/.env.example'') (\<lambda>_.
     andThen (execCommand env envProbe) (\<lambda>envExists.
     andThen (if trim envExists = ''missing''
              then andThen (logs_push ''Creating .env with generated secrets...'') (\<lambda>_.
                   uploadFile env (generateEnvFile d) envPath)
              else logs_push ''.env already exists, keeping existing configuration'') (\<lambda>_.
     andThen (logs_push ''Uploading fetcher service...'') (\<lambda>_.
     andThen (uploadFile env (generateFetcherDockerfile b) ''/opt/rentalmonitor/fetcher/Dockerfile'') (\<lambda>_.
     andThen (uploadFile env (generateFetcherPackageJson b) ''/opt/rentalmonitor/fetcher/package.json'') (\<lambda>_.
     andThen (uploadFile env (generateFetcherService b) ''/opt/rentalmonitor/fetcher/index.js'') (\<lambda>_.
     andThen (logs_push ''Creating README...'') (\<lambda>_.
     andThen (uploadFile env (generateReadme b ports) ''/opt/rentalmonitor/README.md'') (\<lambda>_.
     andThen (logs_push ''Starting Docker Compose stack...'') (\<lambda>_.
     andThen (execCommand env ''cd /opt/rentalmonitor && docker compose up -d --build 2>&1'') (\<lambda>composeOutput.
     andThen (logs_push composeOutput) (\<lambda>_.
     andThen (logs_push ''Waiting for services to start...'') (\<lambda>_.
     andThen (logs_push ''Checking service health...'') (\<lambda>_.
     andThen (execCommand env ''cd /opt/rentalmonitor && docker compose ps --format json 2>/dev/null || docker compose ps'') (\<lambda>psOutput.
     andThen (logs_push psOutput) (\<lambda>_.
     andThen (execCommand env (fetcherProbe ports)) (\<lambda>fetcherHealth.
     let fetcherRunning = str_includes fetcherHealth ''ok'' in
     andThen (execCommand env (ntfyProbe ports)) (\<lambda>ntfyHealth.
     let ntfyRunning = (str_includes ntfyHealth ''healthy'' \<or> \<not> str_includes ntfyHealth ''failed'') in
     andThen (execCommand env (n8nProbe ports)) (\<lambda>n8nHealth.
     let n8nRunning = (\<not> str_includes n8nHealth ''failed'') in
     andThen (execCommand env postgresProbe) (\<lambda>postgresCheck.
     let postgresRunning = str_includes postgresCheck ''accepting connections'' in
     andThen end_session (\<lambda>_.
     (\<lambda>f. returns
       \<lparr> success = True,
         message = ''Deployment completed successfully'',
         logs = logs_so_far f,
         services =
           \<lparr> svc_postgres = \<lparr> running = postgresRunning, healthy = postgresRunning \<rparr>,
             svc_n8n = \<lparr> running = n8nRunning, healthy = n8nRunning,
                         url = Some (''http://127.0.0.1:'' @ toString (n8n ports)) \<rparr>,
             svc_ntfy = \<lparr> running = ntfyRunning, healthy = ntfyRunning,
                          url = Some (''http://127.0.0.1:'' @ toString (ntfy ports)) \<rparr>,
             svc_fetcher = \<lparr> running = fetcherRunning, healthy = fetcherRunning,
                             url = Some (''http://127.0.0.1:'' @ toString (fetcher ports)) \<rparr> \<rparr> \<rparr> f
     ))))))))))))))))))))))))))))"

text \<open>
  \<open>deployToVPS\<close>: the connection is opened outside the \<open>try\<close> block, so a failed
  connection is an exception of \<open>deployToVPS\<close> itself (\<open>Inl\<close>); the \<open>catch\<close> block turns
  every error of the \<open>try\<close> block into a result.
\<close>

definition deployToVPS ::
  "remote \<Rightarrow> artifacts \<Rightarrow> draws \<Rightarrow> SSHConfig \<Rightarrow> ports \<Rightarrow> filesystem \<Rightarrow> (error + DeployResult) \<times> client" where
  "deployToVPS env b d config ports files =
     (case connectSSH env config files of
        Inl e \<Rightarrow> (Inl e, \<lparr> fs = files, journal = [] \<rparr>)
      | Inr c \<Rightarrow>
          (case deploy_try env b d ports (client.extend c (frame.fields [])) of
             (Inr result, f) \<Rightarrow> (Inr result, client.truncate f)
           | (Inl e, f) \<Rightarrow>
               (let f1 = client_end f;
                    f2 = f1\<lparr> logs_so_far := logs_so_far f1 @ [''Error: '' @ e] \<rparr>
                in (Inr \<lparr> success = False,
                          message = e,
                          logs = logs_so_far f2,
                          services =
                            \<lparr> svc_postgres = \<lparr> running = False, healthy = False \<rparr>,
                              svc_n8n = \<lparr> running = False, healthy = False, url = None \<rparr>,
                              svc_ntfy = \<lparr> running = False, healthy = False, url = None \<rparr>,
                              svc_fetcher = \<lparr> running = False, healthy = False, url = None \<rparr> \<rparr> \<rparr>,
                    client.truncate f2))))"

text \<open>\<open>checkVPSServices\<close>: the \<open>catch\<close> block closes the client and throws the error again.\<close>

definition check_try :: "remote \<Rightarrow> ports \<Rightarrow> client \<Rightarrow> (error + Services) \<times> client" where
  "check_try env ports =
     andThen (execCommand env (fetcherProbe ports)) (\<lambda>fetcherHealth.
     let fetcherRunning = str_includes fetcherHealth ''ok'' in
     andThen (execCommand env (ntfyProbe ports)) (\<lambda>ntfyHealth.
     let ntfyRunning = (str_includes ntfyHealth ''healthy'' \<or> \<not> str_includes ntfyHealth ''failed'') in
     andThen (execCommand env (n8nProbe ports)) (\<lambda>n8nHealth.
     let n8nRunning = (\<not> str_includes n8nHealth ''failed'') in
     andThen (execCommand env postgresProbe) (\<lambda>postgresCheck.
     let postgresRunning = str_includes postgresCheck ''accepting connections'' in
     andThen end_session (\<lambda>_.
     returns
       \<lparr> svc_postgres = \<lparr> running = postgresRunning, healthy = postgresRunning \<rparr>,
         svc_n8n = \<lparr> running = n8nRunning, healthy = n8nRunning,
                     url = Some (''http://127.0.0.1:'' @ toString (n8n ports)) \<rparr>,
         svc_ntfy = \<lparr> running = ntfyRunning, healthy = ntfyRunning,
                      url = Some (''http://127.0.0.1:'' @ toString (ntfy ports)) \<rparr>,
         svc_fetcher = \<lparr> running = fetcherRunning, healthy = fetcherRunning,
                         url = Some (''http://127.0.0.1:'' @ toString (fetcher ports)) \<rparr> \<rparr>)))))"

definition checkVPSServices ::
  "remote \<Rightarrow> SSHConfig \<Rightarrow> ports \<Rightarrow> filesystem \<Rightarrow> (error + Services) \<times> client" where
  "checkVPSServices env config ports files =
     (case connectSSH env config files of
        Inl e \<Rightarrow> (Inl e, \<lparr> fs = files, journal = [] \<rparr>)
      | Inr c \<Rightarrow>
          (case check_try env ports c of
             (Inr result, c') \<Rightarrow> (Inr result, c')
           | (Inl e, c') \<Rightarrow> (Inl e, client_end c')))"

text \<open>What the journal says: the error of a failed request.\<close>

fun failure :: "event \<Rightarrow> error option" where
  "failure (Exec command (Inl e)) = Some e"
| "failure (Exec command (Inr output)) = None"
| "failure (Upload remotePath content r) = r"
| "failure End = None"

text \<open>
  A host on which every request succeeds: the connection is established, every upload is
  stored, and a command prints what the script says and changes no file.
\<close>

definition scripted :: "(string \<Rightarrow> string) \<Rightarrow> remote" where
  "scripted script =
     \<lparr> connect_reply = (\<lambda>config. None),
       exec_reply = (\<lambda>files command. (Inr (script command), files)),
       sftp_reply = (\<lambda>files remotePath content. None) \<rparr>"

section \<open>Reasoning about sequences of requests\<close>

text \<open>
  \<open>hoare P m Q E\<close>: started in a state that satisfies \<open>P\<close>, the statement \<open>m\<close> either
  completes with a value and a state that satisfy \<open>Q\<close>, or fails with an error and a state
  that satisfy \<open>E\<close>.
\<close>

definition hoare ::
  "('s \<Rightarrow> bool) \<Rightarrow> ('s \<Rightarrow> (error + 'a) \<times> 's) \<Rightarrow> ('a \<Rightarrow> 's \<Rightarrow> bool) \<Rightarrow> (error \<Rightarrow> 's \<Rightarrow> bool) \<Rightarrow> bool" where
  "hoare P m Q E =
     (\<forall>s. P s \<longrightarrow> (case m s of (Inr x, s') \<Rightarrow> Q x s' | (Inl e, s') \<Rightarrow> E e s'))"

text \<open>No request of the list failed, and the session was not closed.\<close>

definition clean :: "event list \<Rightarrow> bool" where
  "clean evs = list_all (\<lambda>ev. failure ev = None \<and> ev \<noteq> End) evs"

text \<open>Since the journal was \<open>j0\<close>: only successful requests; then one failed request.\<close>

definition running_from :: "event list \<Rightarrow> 'a client_scheme \<Rightarrow> bool" where
  "running_from j0 c = (\<exists>evs. journal c = j0 @ evs \<and> clean evs)"

definition failed_from :: "event list \<Rightarrow> error \<Rightarrow> 'a client_scheme \<Rightarrow> bool" where
  "failed_from j0 e c = (\<exists>pre ev. journal c = j0 @ pre @ [ev] \<and> clean pre \<and> failure ev = Some e)"

definition closed_from :: "event list \<Rightarrow> 'a client_scheme \<Rightarrow> bool" where
  "closed_from j0 c = (\<exists>pre. journal c = j0 @ pre @ [End] \<and> clean pre)"

text \<open>The log so far is exactly the given lines; the log so far starts with them.\<close>

definition logs_are :: "string list \<Rightarrow> frame \<Rightarrow> bool" where
  "logs_are ls f = (logs_so_far f = ls)"

definition logs_extend :: "string list \<Rightarrow> frame \<Rightarrow> bool" where
  "logs_extend ls f = prefix ls (logs_so_far f)"

definition logs_extend_err :: "string list \<Rightarrow> error \<Rightarrow> frame \<Rightarrow> bool" where
  "logs_extend_err ls e f = logs_extend ls f"

section \<open>Concrete hosts\<close>

definition config0 :: SSHConfig where
  "config0 = \<lparr> host = ''vps.example.org'', username = ''deploy'', privateKey = ''key'' \<rparr>"

definition artifacts0 :: artifacts where
  "artifacts0 =
     \<lparr> generateDockerCompose = (\<lambda>ports. ''services:''),
       generateEnvExample = ''POSTGRES_PASSWORD=your_secure_postgres_password'',
       generateFetcherDockerfile = ''FROM mcr.microsoft.com/playwright:v1.40.0-focal'',
       generateFetcherPackageJson = ''{}'',
       generateFetcherService = ''const express = require('express');'',
       generateReadme = (\<lambda>ports. ''# LivingRental Alert - VPS Infrastructure'') \<rparr>"

definition draws0 :: draws where
  "draws0 =
     \<lparr> postgresPassword = ''p'', n8nPassword = ''n'', encryptionKey = ''k'', fetcherSecret = ''f'',
       generated = ''2024-01-01T00:00:00.000Z'' \<rparr>"

definition ports0 :: ports where
  "ports0 = \<lparr> postgres = 5432, n8n = 5678, ntfy = 8080, fetcher = 3001 \<rparr>"

text \<open>A host on which every upload fails.\<close>

definition readonly_host :: remote where
  "readonly_host =
     \<lparr> connect_reply = (\<lambda>config. None),
       exec_reply = (\<lambda>files command. (Inr [], files)),
       sftp_reply = (\<lambda>files remotePath content. Some (''Permission denied'', files remotePath)) \<rparr>"

text \<open>
  A host that has a secrets file and on which no service answers: every health command
  prints its fallback \<open>failed\<close>.
\<close>

definition failed_line :: string where
  "failed_line = ''failed'' @ nl"

definition down_script :: "string \<Rightarrow> string" where
  "down_script command = (if command = envProbe then ''exists'' @ nl else failed_line)"

definition down_host :: remote where
  "down_host = scripted down_script"

text \<open>A host on which every command prints nothing.\<close>

definition silent_host :: remote where
  "silent_host = scripted (\<lambda>command. [])"

text \<open>A host on which every command prints a text with both words of the ntfy check.\<close>

definition mixed_body :: string where
  "mixed_body = ''service unhealthy: last check failed''"

definition mixed_host :: remote where
  "mixed_host = scripted (\<lambda>command. mixed_body)"

text \<open>A host on which every command prints the fallback word alone.\<close>

definition failed_host :: remote where
  "failed_host = scripted (\<lambda>command. ''failed'')"

text \<open>An output of \<open>ss -tlnp\<close> with a line that is not a table row.\<close>

definition table0 :: string where
  "table0 = concat [
     ''State  Recv-Q Send-Q Local Address:Port Peer Address:Port Process'', nl,
     ''LISTEN 0      128          0.0.0.0:22        0.0.0.0:*     users:sshd'', nl,
     ''garbage line'', nl,
     ''LISTEN 0      244        127.0.0.1:5432      0.0.0.0:*     users:postgres'', nl]"

section \<open>The health checks in the journal\<close>

text \<open>
  The four health commands with their outputs and the closing of the session, as the
  journal records them, and the status record that both \<open>deployToVPS\<close> and
  \<open>checkVPSServices\<close> build from these outputs.
\<close>

definition health_events :: "ports \<Rightarrow> string \<Rightarrow> string \<Rightarrow> string \<Rightarrow> string \<Rightarrow> event list" where
  "health_events ports fetcherHealth ntfyHealth n8nHealth postgresCheck =
     [Exec (fetcherProbe ports) (Inr fetcherHealth),
      Exec (ntfyProbe ports) (Inr ntfyHealth),
      Exec (n8nProbe ports) (Inr n8nHealth),
      Exec postgresProbe (Inr postgresCheck),
      End]"

definition health_status :: "ports \<Rightarrow> string \<Rightarrow> string \<Rightarrow> string \<Rightarrow> string \<Rightarrow> Services" where
  "health_status ports fetcherHealth ntfyHealth n8nHealth postgresCheck =
     (let fetcherRunning = str_includes fetcherHealth ''ok'';
          ntfyRunning = (str_includes ntfyHealth ''healthy'' \<or> \<not> str_includes ntfyHealth ''failed'');
          n8nRunning = (\<not> str_includes n8nHealth ''failed'');
          postgresRunning = str_includes postgresCheck ''accepting connections''
      in \<lparr> svc_postgres = \<lparr> running = postgresRunning, healthy = postgresRunning \<rparr>,
           svc_n8n = \<lparr> running = n8nRunning, healthy = n8nRunning,
                       url = Some (''http://127.0.0.1:'' @ toString (n8n ports)) \<rparr>,
           svc_ntfy = \<lparr> running = ntfyRunning, healthy = ntfyRunning,
                        url = Some (''http://127.0.0.1:'' @ toString (ntfy ports)) \<rparr>,
           svc_fetcher = \<lparr> running = fetcherRunning, healthy = fetcherRunning,
                           url = Some (''http://127.0.0.1:'' @ toString (fetcher ports)) \<rparr> \<rparr>)"

definition tail_is :: "event list \<Rightarrow> 'a client_scheme \<Rightarrow> bool" where
  "tail_is evs c = (\<exists>pre. journal c = pre @ evs)"

definition journal_is :: "event list \<Rightarrow> 'a client_scheme \<Rightarrow> bool" where
  "journal_is evs c = (journal c = evs)"

definition any_error :: "error \<Rightarrow> 's \<Rightarrow> bool" where
  "any_error e s = True"

definition last_failed :: "error \<Rightarrow> 'a client_scheme \<Rightarrow> bool" where
  "last_failed e c = (\<exists>pre ev. journal c = pre @ [ev] \<and> failure ev = Some e)"

section \<open>The secrets file\<close>

text \<open>
  What the property of the secrets file assumes of the host. The existence check is the
  shell command \<open>test -f /opt/rentalmonitor/.env && echo 'exists' || echo 'missing'\<close>:
  on a host where the file exists it does not print \<open>missing\<close>. No command of the
  deployment writes the secrets file.
\<close>

definition probe_sound :: "remote \<Rightarrow> bool" where
  "probe_sound env =
     (\<forall>files output. files envPath \<noteq> None \<longrightarrow> fst (exec_reply env files envProbe) = Inr output
        \<longrightarrow> trim output \<noteq> ''missing'')"

definition commands_keep_secrets :: "remote \<Rightarrow> bool" where
  "commands_keep_secrets env =
     (\<forall>files command. snd (exec_reply env files command) envPath = files envPath)"

text \<open>The secrets file has the given content and the journal has no upload to its path.\<close>

definition secrets_kept :: "string \<Rightarrow> 'a client_scheme \<Rightarrow> bool" where
  "secrets_kept secrets c =
     (fs c envPath = Some secrets
      \<and> list_all (\<lambda>ev. case ev of Upload remotePath content r \<Rightarrow> remotePath \<noteq> envPath | _ \<Rightarrow> True)
           (journal c))"

definition secrets_kept_err :: "string \<Rightarrow> error \<Rightarrow> 'a client_scheme \<Rightarrow> bool" where
  "secrets_kept_err secrets e c = secrets_kept secrets c"

text \<open>
  A host whose existence check looks at the files: it prints \<open>exists\<close> or \<open>missing\<close>;
  every other command prints nothing, and every request succeeds.
\<close>

definition fresh_host :: remote where
  "fresh_host =
     \<lparr> connect_reply = (\<lambda>config. None),
       exec_reply = (\<lambda>files command.
         (Inr (if command = envProbe
               then (if files envPath = None then ''missing'' @ nl else ''exists'' @ nl)
               else []),
          files)),
       sftp_reply = (\<lambda>files remotePath content. None) \<rparr>"

definition draws1 :: draws where
  "draws1 =
     \<lparr> postgresPassword = ''q'', n8nPassword = ''m'', encryptionKey = ''j'', fetcherSecret = ''e'',
       generated = ''2024-02-02T00:00:00.000Z'' \<rparr>"

section \<open>Properties\<close>

subsection \<open>The probing loop\<close>

lemma probe_Some:
  "probe p limit used = Some q \<Longrightarrow>
     p \<le> q \<and> q < limit \<and> q \<notin> set used \<and> (\<forall>r. p \<le> r \<and> r < q \<longrightarrow> r \<in> set used)"
proof (induction p limit used rule: probe.induct)
  case (1 p limit used)
  show ?case
  proof (cases "p < limit \<and> p \<in> set used")
    case True
    with "1.prems" have "probe (p + 1) limit used = Some q"
      by (simp add: probe.simps [of p])
    with "1.IH" True
    have "p + 1 \<le> q \<and> q < limit \<and> q \<notin> set used \<and> (\<forall>r. p + 1 \<le> r \<and> r < q \<longrightarrow> r \<in> set used)"
      by simp
    moreover have "r \<in> set used" if "p \<le> r" "r < q" "\<forall>r. p + 1 \<le> r \<and> r < q \<longrightarrow> r \<in> set used" for r
      using that True by (cases "r = p") auto
    ultimately show ?thesis by auto
  next
    case False
    with "1.prems" show ?thesis
      by (auto simp: probe.simps [of p] split: if_splits)
  qed
qed

lemma probe_None:
  "probe p limit used = None \<Longrightarrow> p \<le> r \<Longrightarrow> r < limit \<Longrightarrow> r \<in> set used"
proof (induction p limit used rule: probe.induct)
  case (1 p limit used)
  from "1.prems" have lt: "p < limit" by simp
  with "1.prems"(1) have pin: "p \<in> set used" and rest: "probe (p + 1) limit used = None"
    by (auto simp: probe.simps [of p] split: if_splits)
  show ?case
  proof (cases "r = p")
    case True
    with pin show ?thesis by simp
  next
    case False
    with "1.prems" have "p + 1 \<le> r" by simp
    with "1.IH" lt pin rest "1.prems"(3) show ?thesis by simp
  qed
qed

lemma probe_first_free:
  "p \<le> q \<Longrightarrow> q < limit \<Longrightarrow> q \<notin> set used \<Longrightarrow> (\<forall>r. p \<le> r \<and> r < q \<longrightarrow> r \<in> set used) \<Longrightarrow>
     probe p limit used = Some q"
proof -
  assume a: "p \<le> q" "q < limit" "q \<notin> set used" "\<forall>r. p \<le> r \<and> r < q \<longrightarrow> r \<in> set used"
  show ?thesis
  proof (cases "probe p limit used")
    case None
    from probe_None [OF None a(1) a(2)] a(3) show ?thesis by simp
  next
    case (Some q')
    from probe_Some [OF Some]
    have b: "p \<le> q'" "q' < limit" "q' \<notin> set used" "\<forall>r. p \<le> r \<and> r < q' \<longrightarrow> r \<in> set used"
      by auto
    have "\<not> q' < q" using a(4) b(1) b(3) by auto
    moreover have "\<not> q < q'" using b(4) a(1) a(3) by auto
    ultimately show ?thesis using Some by simp
  qed
qed

lemma findSafePort_cases:
  "(findSafePort p used = p \<and> p \<notin> set used)
   \<or> (p < findSafePort p used \<and> findSafePort p used < p + 100 \<and> findSafePort p used \<notin> set used
        \<and> p \<in> set used)
   \<or> (findSafePort p used = p + 1000 \<and> (\<forall>r. p \<le> r \<and> r < p + 100 \<longrightarrow> r \<in> set used))"
proof (cases "p \<in> set used")
  case False
  then show ?thesis by (simp add: findSafePort_def)
next
  case True
  show ?thesis
  proof (cases "probe (p + 1) (p + 100) used")
    case None
    have "r \<in> set used" if "p \<le> r" "r < p + 100" for r
    proof (cases "r = p")
      case True
      with \<open>p \<in> set used\<close> show ?thesis by simp
    next
      case False
      with that have "p + 1 \<le> r" by simp
      from probe_None [OF None this that(2)] show ?thesis .
    qed
    with True None show ?thesis by (simp add: findSafePort_def)
  next
    case (Some q)
    from probe_Some [OF Some] True Some show ?thesis
      by (auto simp: findSafePort_def)
  qed
qed

lemma findSafePort_range:
  "(p \<le> findSafePort p used \<and> findSafePort p used < p + 100) \<or> findSafePort p used = p + 1000"
  using findSafePort_cases [of p used] by auto

lemma assigned_ports_distinct:
  "distinct [postgres (safePorts ps), n8n (safePorts ps), ntfy (safePorts ps),
             fetcher (safePorts ps)]"
proof -
  let ?u = "map port ps"
  have pg: "(5432 \<le> findSafePort 5432 ?u \<and> findSafePort 5432 ?u < 5432 + 100)
              \<or> findSafePort 5432 ?u = 5432 + 1000"
    by (rule findSafePort_range)
  have n8: "(5678 \<le> findSafePort 5678 ?u \<and> findSafePort 5678 ?u < 5678 + 100)
              \<or> findSafePort 5678 ?u = 5678 + 1000"
    by (rule findSafePort_range)
  have nt: "(8080 \<le> findSafePort 8080 ?u \<and> findSafePort 8080 ?u < 8080 + 100)
              \<or> findSafePort 8080 ?u = 8080 + 1000"
    by (rule findSafePort_range)
  have fe: "(3001 \<le> findSafePort 3001 ?u \<and> findSafePort 3001 ?u < 3001 + 100)
              \<or> findSafePort 3001 ?u = 3001 + 1000"
    by (rule findSafePort_range)
  have "findSafePort 5432 ?u \<noteq> findSafePort 5678 ?u"
    using pg n8 by arith
  moreover have "findSafePort 5432 ?u \<noteq> findSafePort 8080 ?u"
    using pg nt by arith
  moreover have "findSafePort 5432 ?u \<noteq> findSafePort 3001 ?u"
    using pg fe by arith
  moreover have "findSafePort 5678 ?u \<noteq> findSafePort 8080 ?u"
    using n8 nt by arith
  moreover have "findSafePort 5678 ?u \<noteq> findSafePort 3001 ?u"
    using n8 fe by arith
  moreover have "findSafePort 8080 ?u \<noteq> findSafePort 3001 ?u"
    using nt fe by arith
  ultimately show ?thesis
    by (simp add: safePorts_def Let_def)
qed

subsection \<open>Port assignment\<close>

lemma port_listening: "map port (listening ns) = ns"
  by (induction ns) (simp_all add: listening_def)

lemma findSafePort_free: "p \<notin> set used \<Longrightarrow> findSafePort p used = p"
  by (simp add: findSafePort_def)

lemma findSafePort_next:
  assumes "p \<in> set used" "p < q" "q < p + 100" "q \<notin> set used"
    and "\<forall>r. p < r \<and> r < q \<longrightarrow> r \<in> set used"
  shows "findSafePort p used = q"
proof -
  from assms have "probe (p + 1) (p + 100) used = Some q"
    by (intro probe_first_free) auto
  with assms(1) show ?thesis by (simp add: findSafePort_def)
qed

lemma findSafePort_fallback:
  "\<forall>r. p \<le> r \<and> r < p + 100 \<longrightarrow> r \<in> set used \<Longrightarrow> findSafePort p used = p + 1000"
  using findSafePort_cases [of p used] by auto

lemma findSafePort_free_or_fallback:
  "findSafePort p used \<notin> set used
   \<or> (findSafePort p used = p + 1000 \<and> (\<forall>r. p \<le> r \<and> r < p + 100 \<longrightarrow> r \<in> set used))"
  using findSafePort_cases [of p used] by auto

lemma safePorts_fields:
  "postgres (safePorts ps) = findSafePort 5432 (map port ps)"
  "n8n (safePorts ps) = findSafePort 5678 (map port ps)"
  "ntfy (safePorts ps) = findSafePort 8080 (map port ps)"
  "fetcher (safePorts ps) = findSafePort 3001 (map port ps)"
  by (simp_all add: safePorts_def Let_def)

lemma busy_block_postgres: "postgres (safePorts busy_block) = 6432"
proof -
  have "findSafePort 5432 ([5432 ..< 5532] @ [6432]) = 5432 + 1000"
    by (rule findSafePort_fallback) (simp del: upt.simps upt_rec_numeral)
  then show ?thesis
    by (simp add: safePorts_fields busy_block_def port_listening del: upt.simps upt_rec_numeral)
qed

lemma safePorts_one_busy:
  "safePorts (listening [5432, 80]) = \<lparr>postgres = 5433, n8n = 5678, ntfy = 8080, fetcher = 3001\<rparr>"
proof -
  have "findSafePort 5432 [5432, 80] = 5433" by (rule findSafePort_next) auto
  then show ?thesis by (simp add: safePorts_def Let_def port_listening findSafePort_free)
qed

text \<open>
  Claim C1, as stated: the four assigned ports are pairwise distinct and none of them is a
  port of \<open>facts.ports\<close>. It fails on a host where ports 5432 to 5531 and port 6432 are
  busy: the database service gets the fallback 6432, which is busy.
\<close>

theorem safePorts_collision_counterexample:
  "\<not> (distinct [postgres (safePorts busy_block), n8n (safePorts busy_block),
                 ntfy (safePorts busy_block), fetcher (safePorts busy_block)]
       \<and> postgres (safePorts busy_block) \<notin> set (map port busy_block)
       \<and> n8n (safePorts busy_block) \<notin> set (map port busy_block)
       \<and> ntfy (safePorts busy_block) \<notin> set (map port busy_block)
       \<and> fetcher (safePorts busy_block) \<notin> set (map port busy_block))"
proof -
  have "postgres (safePorts busy_block) \<in> set (map port busy_block)"
    unfolding busy_block_postgres
    by (simp add: busy_block_def port_listening del: upt.simps upt_rec_numeral)
  then show ?thesis by simp
qed

text \<open>
  Claim C1, amended: the four assigned ports are pairwise distinct, and each of them is
  either no port of \<open>facts.ports\<close> or the fallback \<open>preferred + 1000\<close> of its service,
  taken when the preferred port and the 99 ports after it are all in \<open>facts.ports\<close>.
\<close>

theorem safePorts_distinct_free_or_fallback:
  "distinct [postgres (safePorts ps), n8n (safePorts ps), ntfy (safePorts ps),
             fetcher (safePorts ps)]
   \<and> (postgres (safePorts ps) \<notin> set (map port ps)
        \<or> (postgres (safePorts ps) = 6432 \<and> (\<forall>r. 5432 \<le> r \<and> r < 5532 \<longrightarrow> r \<in> set (map port ps))))
   \<and> (n8n (safePorts ps) \<notin> set (map port ps)
        \<or> (n8n (safePorts ps) = 6678 \<and> (\<forall>r. 5678 \<le> r \<and> r < 5778 \<longrightarrow> r \<in> set (map port ps))))
   \<and> (ntfy (safePorts ps) \<notin> set (map port ps)
        \<or> (ntfy (safePorts ps) = 9080 \<and> (\<forall>r. 8080 \<le> r \<and> r < 8180 \<longrightarrow> r \<in> set (map port ps))))
   \<and> (fetcher (safePorts ps) \<notin> set (map port ps)
        \<or> (fetcher (safePorts ps) = 4001 \<and> (\<forall>r. 3001 \<le> r \<and> r < 3101 \<longrightarrow> r \<in> set (map port ps))))"
proof -
  let ?u = "map port ps"
  have d: "distinct [findSafePort 5432 ?u, findSafePort 5678 ?u, findSafePort 8080 ?u,
                     findSafePort 3001 ?u]"
    using assigned_ports_distinct [of ps] by (simp only: safePorts_fields)
  have pg: "findSafePort 5432 ?u \<notin> set ?u
            \<or> (findSafePort 5432 ?u = 6432 \<and> (\<forall>r. 5432 \<le> r \<and> r < 5532 \<longrightarrow> r \<in> set ?u))"
    using findSafePort_free_or_fallback [of 5432 ?u] by simp
  have n8: "findSafePort 5678 ?u \<notin> set ?u
            \<or> (findSafePort 5678 ?u = 6678 \<and> (\<forall>r. 5678 \<le> r \<and> r < 5778 \<longrightarrow> r \<in> set ?u))"
    using findSafePort_free_or_fallback [of 5678 ?u] by simp
  have nt: "findSafePort 8080 ?u \<notin> set ?u
            \<or> (findSafePort 8080 ?u = 9080 \<and> (\<forall>r. 8080 \<le> r \<and> r < 8180 \<longrightarrow> r \<in> set ?u))"
    using findSafePort_free_or_fallback [of 8080 ?u] by simp
  have fe: "findSafePort 3001 ?u \<notin> set ?u
            \<or> (findSafePort 3001 ?u = 4001 \<and> (\<forall>r. 3001 \<le> r \<and> r < 3101 \<longrightarrow> r \<in> set ?u))"
    using findSafePort_free_or_fallback [of 3001 ?u] by simp
  show ?thesis
    unfolding safePorts_fields using d pg n8 nt fe by (intro conjI)
qed

theorem safePorts_distinct_free_or_fallback_witness:
  "postgres (safePorts (listening [5432, 80])) = 5433
   \<and> 5433 \<notin> set (map port (listening [5432, 80]))
   \<and> distinct [postgres (safePorts (listening [5432, 80])), n8n (safePorts (listening [5432, 80])),
               ntfy (safePorts (listening [5432, 80])), fetcher (safePorts (listening [5432, 80]))]"
  using safePorts_distinct_free_or_fallback [of "listening [5432, 80]"]
  by (simp add: safePorts_one_busy port_listening)

text \<open>
  Claim C2: the port for a preferred port \<open>p\<close> is \<open>p\<close> when \<open>p\<close> is not used; otherwise
  the first unused port among \<open>p + 1, ..., p + 99\<close>; and \<open>p + 1000\<close> when \<open>p, ..., p + 99\<close>
  are all used. When 5432 to 5531 are all busy the database service gets 6432, which is
  none of the hundred probed ports.
\<close>

theorem findSafePort_spec:
  "(p \<notin> set used \<longrightarrow> findSafePort p used = p)
   \<and> (p \<in> set used \<and> p < q \<and> q < p + 100 \<and> q \<notin> set used
        \<and> (\<forall>r. p < r \<and> r < q \<longrightarrow> r \<in> set used) \<longrightarrow> findSafePort p used = q)
   \<and> ((\<forall>r. p \<le> r \<and> r < p + 100 \<longrightarrow> r \<in> set used) \<longrightarrow> findSafePort p used = p + 1000)
   \<and> ((\<forall>r. 5432 \<le> r \<and> r < 5532 \<longrightarrow> r \<in> set (map port ps)) \<longrightarrow>
         postgres (safePorts ps) = 6432
         \<and> \<not> (5432 \<le> postgres (safePorts ps) \<and> postgres (safePorts ps) < 5532))"
proof -
  have "postgres (safePorts ps) = 6432"
    if "\<forall>r. 5432 \<le> r \<and> r < 5532 \<longrightarrow> r \<in> set (map port ps)"
    using findSafePort_fallback [of 5432 "map port ps"] that by (simp add: safePorts_fields)
  then show ?thesis
    using findSafePort_free [of p used] findSafePort_next [of p used q]
      findSafePort_fallback [of p used]
    by auto
qed

theorem findSafePort_spec_witness:
  "findSafePort 8080 [80, 443] = 8080
   \<and> findSafePort 5432 [5432, 5433] = 5434
   \<and> findSafePort 5678 [5678 ..< 5778] = 6678
   \<and> postgres (safePorts (listening [5432 ..< 5532])) = 6432"
proof (intro conjI)
  have "8080 \<notin> set [80, 443::nat]" by simp
  with findSafePort_spec [of 8080 "[80, 443]"]
  show "findSafePort 8080 [80, 443] = 8080" by blast
next
  have "5432 \<in> set [5432, 5433::nat] \<and> (5432::nat) < 5434 \<and> (5434::nat) < 5432 + 100
        \<and> 5434 \<notin> set [5432, 5433::nat]
        \<and> (\<forall>r. 5432 < r \<and> r < 5434 \<longrightarrow> r \<in> set [5432, 5433::nat])"
    by auto
  with findSafePort_spec [of 5432 "[5432, 5433]" 5434]
  show "findSafePort 5432 [5432, 5433] = 5434" by blast
next
  have "\<forall>r::nat. 5678 \<le> r \<and> r < 5678 + 100 \<longrightarrow> r \<in> set [5678 ..< 5778]"
    unfolding set_upt by simp
  with findSafePort_spec [of 5678 "[5678 ..< 5778]"]
  show "findSafePort 5678 [5678 ..< 5778] = 6678" by simp
next
  have "\<forall>r::nat. 5432 \<le> r \<and> r < 5532 \<longrightarrow> r \<in> set (map port (listening [5432 ..< 5532]))"
    unfolding port_listening set_upt by simp
  with findSafePort_spec [of _ _ _ "listening [5432 ..< 5532]"]
  show "postgres (safePorts (listening [5432 ..< 5532])) = 6432" by blast
qed

lemma candidates_iff: "q \<in> candidates p \<longleftrightarrow> (p \<le> q \<and> q < p + 100) \<or> q = p + 1000"
  by (auto simp: candidates_def)

text \<open>
  Claim C9: for every list of used ports the four assigned ports are pairwise distinct,
  because each lies in the candidate set of its own preferred port and the four candidate
  sets are pairwise disjoint; this does not depend on whether a port is busy, so it holds
  in the fallback case too.
\<close>

theorem safePorts_pairwise_distinct:
  "postgres (safePorts ps) \<in> candidates 5432
   \<and> n8n (safePorts ps) \<in> candidates 5678
   \<and> ntfy (safePorts ps) \<in> candidates 8080
   \<and> fetcher (safePorts ps) \<in> candidates 3001
   \<and> candidates 5432 \<inter> candidates 5678 = {}
   \<and> candidates 5432 \<inter> candidates 8080 = {}
   \<and> candidates 5432 \<inter> candidates 3001 = {}
   \<and> candidates 5678 \<inter> candidates 8080 = {}
   \<and> candidates 5678 \<inter> candidates 3001 = {}
   \<and> candidates 8080 \<inter> candidates 3001 = {}
   \<and> distinct [postgres (safePorts ps), n8n (safePorts ps), ntfy (safePorts ps),
               fetcher (safePorts ps)]"
proof -
  have mem: "findSafePort p used \<in> candidates p" for p used
    using findSafePort_range [of p used] by (simp add: candidates_iff)
  have disj: "candidates 5432 \<inter> candidates 5678 = {}" "candidates 5432 \<inter> candidates 8080 = {}"
    "candidates 5432 \<inter> candidates 3001 = {}" "candidates 5678 \<inter> candidates 8080 = {}"
    "candidates 5678 \<inter> candidates 3001 = {}" "candidates 8080 \<inter> candidates 3001 = {}"
    by (auto simp: candidates_iff)
  show ?thesis
    using assigned_ports_distinct [of ps] mem disj by (simp only: safePorts_fields simp_thms)
qed


subsection \<open>Sequences of requests\<close>

lemma hoare_andThen:
  "hoare P m Q' E \<Longrightarrow> (\<And>x. hoare (Q' x) (f x) Q E) \<Longrightarrow> hoare P (andThen m f) Q E"
  unfolding hoare_def andThen_def
  by (fastforce split: prod.splits sum.splits)

lemma hoare_if:
  "hoare P m1 Q E \<Longrightarrow> hoare P m2 Q E \<Longrightarrow> hoare P (if b then m1 else m2) Q E"
  by simp

lemma hoare_let:
  "hoare P (f v) Q E \<Longrightarrow> hoare P (let x = v in f x) Q E"
  by (simp add: Let_def)

lemma hoare_returns:
  "(\<And>f. P f \<Longrightarrow> Q (r f) f) \<Longrightarrow> hoare P (\<lambda>f. returns (r f) f) Q E"
  by (simp add: hoare_def returns_def)

lemma run_push: "hoare (running_from j0) (logs_push l) (\<lambda>_. running_from j0) (failed_from j0)"
  by (simp add: hoare_def logs_push_def running_from_def)

lemma run_exec:
  "hoare (running_from j0) (execCommand env cmd) (\<lambda>_. running_from j0) (failed_from j0)"
  by (auto simp: hoare_def execCommand_def running_from_def failed_from_def clean_def
           split: prod.splits sum.splits)

lemma run_upload:
  "hoare (running_from j0) (uploadFile env content path) (\<lambda>_. running_from j0) (failed_from j0)"
  by (auto simp: hoare_def uploadFile_def running_from_def failed_from_def clean_def
           split: prod.splits option.splits)

lemma run_end:
  "hoare (running_from j0) end_session (\<lambda>_. closed_from j0) (failed_from j0)"
  by (auto simp: hoare_def end_session_def client_end_def running_from_def closed_from_def)

lemma deploy_try_run:
  "hoare (running_from j0) (deploy_try env b d ports)
     (\<lambda>r f. closed_from j0 f \<and> success r \<and> message r = ''Deployment completed successfully''
             \<and> logs r = logs_so_far f)
     (failed_from j0)"
  unfolding deploy_try_def
  apply (rule hoare_andThen hoare_if hoare_let run_push run_exec run_upload run_end hoare_returns)+
  apply simp
  done

lemma clean_no_failure: "clean evs \<Longrightarrow> ev \<in> set evs \<Longrightarrow> failure ev = None \<and> ev \<noteq> End"
  by (simp add: clean_def list_all_iff)

text \<open>The two ways in which deployToVPS ends once the connection is established.\<close>

lemma deployToVPS_outcome:
  assumes conn: "connect_reply env config = None"
    and run: "deployToVPS env b d config ports files = (res, c)"
  shows "(\<exists>r pre. res = Inr r \<and> journal c = pre @ [End] \<and> clean pre \<and> success r
            \<and> message r = ''Deployment completed successfully'')
       \<or> (\<exists>r pre ev e. res = Inr r \<and> journal c = pre @ [ev, End] \<and> clean pre
            \<and> failure ev = Some e \<and> \<not> success r \<and> message r = e
            \<and> logs r \<noteq> [] \<and> last (logs r) = ''Error: '' @ e \<and> services r = all_down)"
proof -
  let ?f0 = "client.extend \<lparr> fs = files, journal = [] \<rparr> (frame.fields [])"
  obtain out f where body: "deploy_try env b d ports ?f0 = (out, f)"
    by (cases "deploy_try env b d ports ?f0") auto
  have start: "running_from [] ?f0"
    by (simp add: running_from_def clean_def client.extend_def)
  from deploy_try_run [of "[]" env b d ports] start body
  have post: "case out of
                Inr r \<Rightarrow> closed_from [] f \<and> success r
                         \<and> message r = ''Deployment completed successfully''
              | Inl e \<Rightarrow> failed_from [] e f"
    by (auto simp: hoare_def split: sum.splits)
  show ?thesis
  proof (cases out)
    case (Inr r)
    with post conn run body show ?thesis
      by (auto simp: deployToVPS_def connectSSH_def closed_from_def client.truncate_def)
  next
    case (Inl e)
    with post conn run body show ?thesis
      by (auto simp: deployToVPS_def connectSSH_def failed_from_def client.truncate_def
                     client_end_def Let_def all_down_def)
  qed
qed

lemma readonly_run:
  "deployToVPS readonly_host artifacts0 draws0 config0 ports0 Map.empty =
     (Inr \<lparr> success = False, message = ''Permission denied'',
            logs = [''Connected to VPS'', ''Creating directory structure...'',
                    ''Uploading docker-compose.yml...'', ''Error: Permission denied''],
            services = all_down \<rparr>,
      \<lparr> fs = Map.empty,
        journal = [Exec ''mkdir -p /opt/rentalmonitor/{fetcher,logs}'' (Inr []),
                   Upload ''/opt/rentalmonitor/docker-compose.yml'' ''services:'' (Some ''Permission denied''),
                   End] \<rparr>)"
  by (simp add: deployToVPS_def connectSSH_def deploy_try_def andThen_def logs_push_def
        execCommand_def uploadFile_def readonly_host_def client_end_def all_down_def
        artifacts0_def client.extend_def client.truncate_def frame.fields_def Let_def)

lemma execCommand_eq:
  "execCommand env cmd c =
     (fst (exec_reply env (fs c) cmd),
      c\<lparr> fs := snd (exec_reply env (fs c) cmd),
         journal := journal c @ [Exec cmd (fst (exec_reply env (fs c) cmd))] \<rparr>)"
  by (simp add: execCommand_def split: prod.splits)

lemma hoareD:
  "hoare P m Q E \<Longrightarrow> P s \<Longrightarrow> m s = (out, s') \<Longrightarrow>
     (case out of Inr x \<Rightarrow> Q x s' | Inl e \<Rightarrow> E e s')"
  by (auto simp: hoare_def split: sum.splits)


subsection \<open>The health checks of a session\<close>

lemma tail_anything: "hoare (tail_is []) m (\<lambda>_. tail_is []) any_error"
  by (simp add: hoare_def tail_is_def any_error_def split: prod.splits sum.splits)

lemma tail_exec_prim:
  "hoare (tail_is evs) (execCommand env cmd) (\<lambda>out. tail_is (evs @ [Exec cmd (Inr out)])) any_error"
  by (auto simp: hoare_def execCommand_def tail_is_def any_error_def split: prod.splits sum.splits)

lemma tail_end_prim:
  "hoare (tail_is evs) end_session (\<lambda>_. tail_is (evs @ [End])) any_error"
  by (auto simp: hoare_def end_session_def client_end_def tail_is_def)

lemma tail_skip:
  "(\<And>x. hoare (tail_is []) (f x) Q any_error) \<Longrightarrow> hoare (tail_is []) (andThen m f) Q any_error"
  by (rule hoare_andThen [OF tail_anything])

lemma tail_fetcher:
  "(\<And>out. hoare (tail_is ([] @ [Exec (fetcherProbe ports) (Inr out)])) (f out) Q any_error) \<Longrightarrow>
     hoare (tail_is []) (andThen (execCommand env (fetcherProbe ports)) f) Q any_error"
  by (rule hoare_andThen [OF tail_exec_prim])

lemma tail_exec:
  "(\<And>out. hoare (tail_is ((evs @ [ev]) @ [Exec cmd (Inr out)])) (f out) Q any_error) \<Longrightarrow>
     hoare (tail_is (evs @ [ev])) (andThen (execCommand env cmd) f) Q any_error"
  by (rule hoare_andThen [OF tail_exec_prim])

lemma tail_end:
  "(\<And>u. hoare (tail_is (evs @ [End])) (f u) Q any_error) \<Longrightarrow>
     hoare (tail_is evs) (andThen end_session f) Q any_error"
  by (rule hoare_andThen [OF tail_end_prim])

lemma deploy_try_health:
  "hoare (tail_is []) (deploy_try env b d ports)
     (\<lambda>r f. \<exists>fh nh eh ph. tail_is (health_events ports fh nh eh ph) f
                \<and> services r = health_status ports fh nh eh ph)
     any_error"
  unfolding deploy_try_def
  apply (rule tail_fetcher tail_exec tail_end tail_skip hoare_let hoare_returns)+
  apply (simp add: health_events_def health_status_def Let_def)
  apply blast
  done

lemma exact_exec_prim:
  "hoare (journal_is evs) (execCommand env cmd)
     (\<lambda>out. journal_is (evs @ [Exec cmd (Inr out)])) last_failed"
  by (auto simp: hoare_def execCommand_def journal_is_def last_failed_def split: prod.splits sum.splits)

lemma exact_end_prim:
  "hoare (journal_is evs) end_session (\<lambda>_. journal_is (evs @ [End])) last_failed"
  by (auto simp: hoare_def end_session_def client_end_def journal_is_def)

lemma exact_exec:
  "(\<And>out. hoare (journal_is (evs @ [Exec cmd (Inr out)])) (f out) Q last_failed) \<Longrightarrow>
     hoare (journal_is evs) (andThen (execCommand env cmd) f) Q last_failed"
  by (rule hoare_andThen [OF exact_exec_prim])

lemma exact_end:
  "(\<And>u. hoare (journal_is (evs @ [End])) (f u) Q last_failed) \<Longrightarrow>
     hoare (journal_is evs) (andThen end_session f) Q last_failed"
  by (rule hoare_andThen [OF exact_end_prim])

lemma hoare_returns_const:
  "(\<And>c. P c \<Longrightarrow> Q r c) \<Longrightarrow> hoare P (returns r) Q E"
  by (simp add: hoare_def returns_def)

lemma check_try_health:
  "hoare (journal_is []) (check_try env ports)
     (\<lambda>s c. \<exists>fh nh eh ph. journal c = health_events ports fh nh eh ph
                \<and> s = health_status ports fh nh eh ph)
     last_failed"
  unfolding check_try_def
  apply (rule hoare_let exact_exec exact_end hoare_returns_const)+
  apply (simp add: health_events_def health_status_def Let_def journal_is_def)
  done


subsection \<open>Outcomes of a deployment and of a health probe\<close>

lemma deployToVPS_health:
  assumes run: "deployToVPS env b d config ports files = (Inr r, c)"
    and ok: "success r"
  shows "\<exists>pre fh nh eh ph. journal c = pre @ health_events ports fh nh eh ph
           \<and> services r = health_status ports fh nh eh ph"
proof -
  let ?f0 = "client.extend \<lparr> fs = files, journal = [] \<rparr> (frame.fields [])"
  obtain out f where body: "deploy_try env b d ports ?f0 = (out, f)"
    by (cases "deploy_try env b d ports ?f0") auto
  from run have conn: "connect_reply env config = None"
    by (auto simp: deployToVPS_def connectSSH_def split: option.splits)
  have "tail_is [] ?f0" by (simp add: tail_is_def)
  with deploy_try_health [of env b d ports] body
  have post: "case out of
                Inr r' \<Rightarrow> \<exists>fh nh eh ph. tail_is (health_events ports fh nh eh ph) f
                                \<and> services r' = health_status ports fh nh eh ph
              | Inl e \<Rightarrow> True"
    by (auto simp: hoare_def split: sum.splits)
  show ?thesis
  proof (cases out)
    case (Inr r')
    with run conn body have "r' = r" "c = client.truncate f"
      by (auto simp: deployToVPS_def connectSSH_def)
    with post Inr obtain pre fh nh eh ph where
      "journal f = pre @ health_events ports fh nh eh ph"
      "services r = health_status ports fh nh eh ph"
      by (auto simp: tail_is_def)
    with \<open>c = client.truncate f\<close> show ?thesis
      by (simp add: client.truncate_def) blast
  next
    case (Inl e)
    with run conn body ok show ?thesis
      by (auto simp: deployToVPS_def connectSSH_def Let_def)
  qed
qed

lemma checkVPSServices_outcome:
  assumes conn: "connect_reply env config = None"
    and run: "checkVPSServices env config ports files = (res, c)"
  shows "(\<exists>fh nh eh ph. res = Inr (health_status ports fh nh eh ph)
            \<and> journal c = health_events ports fh nh eh ph)
       \<or> (\<exists>e pre ev. res = Inl e \<and> journal c = pre @ [ev, End] \<and> failure ev = Some e)"
proof -
  let ?c0 = "\<lparr> fs = files, journal = [] \<rparr>"
  obtain out c' where body: "check_try env ports ?c0 = (out, c')"
    by (cases "check_try env ports ?c0") auto
  have "journal_is [] ?c0" by (simp add: journal_is_def)
  with check_try_health [of env ports] body
  have post: "case out of
                Inr s \<Rightarrow> \<exists>fh nh eh ph. journal c' = health_events ports fh nh eh ph
                               \<and> s = health_status ports fh nh eh ph
              | Inl e \<Rightarrow> last_failed e c'"
    by (auto simp: hoare_def split: sum.splits)
  show ?thesis
  proof (cases out)
    case (Inr s)
    with post conn run body show ?thesis
      by (auto simp: checkVPSServices_def connectSSH_def)
  next
    case (Inl e)
    with post conn run body show ?thesis
      by (auto simp: checkVPSServices_def connectSSH_def last_failed_def client_end_def)
  qed
qed


subsection \<open>Runs on concrete hosts\<close>

lemmas run_defs = deployToVPS_def checkVPSServices_def connectSSH_def deploy_try_def check_try_def
  andThen_def logs_push_def execCommand_def uploadFile_def client_end_def end_session_def
  returns_def client.extend_def client.truncate_def frame.fields_def Let_def

lemmas host_defs = down_host_def silent_host_def mixed_host_def scripted_def down_script_def
  artifacts0_def envProbe_def fetcherProbe_def ntfyProbe_def n8nProbe_def postgresProbe_def
  nl_def trim_def isSpace_def mixed_body_def

lemma down_deploy:
  "deployToVPS down_host artifacts0 draws0 config0 ports0 files =
     (Inr \<lparr> success = True, message = ''Deployment completed successfully'',
            logs = [''Connected to VPS'', ''Creating directory structure...'',
                    ''Uploading docker-compose.yml...'', ''Uploading .env.example...'',
                    ''.env already exists, keeping existing configuration'',
                    ''Uploading fetcher service...'', ''Creating README...'',
                    ''Starting Docker Compose stack...'', failed_line,
                    ''Waiting for services to start...'', ''Checking service health...'',
                    failed_line],
            services = health_status ports0 failed_line failed_line failed_line failed_line \<rparr>,
      \<lparr> fs = files(''/opt/rentalmonitor/docker-compose.yml'' \<mapsto> ''services:'',
                    ''/opt/rentalmonitor/.env.example'' \<mapsto> ''POSTGRES_PASSWORD=your_secure_postgres_password'',
                    ''/opt/rentalmonitor/fetcher/Dockerfile'' \<mapsto> ''FROM mcr.microsoft.com/playwright:v1.40.0-focal'',
                    ''/opt/rentalmonitor/fetcher/package.json'' \<mapsto> ''{}'',
                    ''/opt/rentalmonitor/fetcher/index.js'' \<mapsto> ''const express = require('express');'',
                    ''/opt/rentalmonitor/README.md'' \<mapsto> ''# LivingRental Alert - VPS Infrastructure''),
        journal =
          [Exec ''mkdir -p /opt/rentalmonitor/{fetcher,logs}'' (Inr failed_line),
           Upload ''/opt/rentalmonitor/docker-compose.yml'' ''services:'' None,
           Upload ''/opt/rentalmonitor/.env.example'' ''POSTGRES_PASSWORD=your_secure_postgres_password'' None,
           Exec envProbe (Inr (''exists'' @ nl)),
           Upload ''/opt/rentalmonitor/fetcher/Dockerfile'' ''FROM mcr.microsoft.com/playwright:v1.40.0-focal'' None,
           Upload ''/opt/rentalmonitor/fetcher/package.json'' ''{}'' None,
           Upload ''/opt/rentalmonitor/fetcher/index.js'' ''const express = require('express');'' None,
           Upload ''/opt/rentalmonitor/README.md'' ''# LivingRental Alert - VPS Infrastructure'' None,
           Exec ''cd /opt/rentalmonitor && docker compose up -d --build 2>&1'' (Inr failed_line),
           Exec ''cd /opt/rentalmonitor && docker compose ps --format json 2>/dev/null || docker compose ps'' (Inr failed_line)]
          @ health_events ports0 failed_line failed_line failed_line failed_line \<rparr>)"
  by (simp add: run_defs host_defs health_events_def health_status_def)

lemma down_status:
  "health_status ports0 failed_line failed_line failed_line failed_line =
     \<lparr> svc_postgres = \<lparr> running = False, healthy = False \<rparr>,
       svc_n8n = \<lparr> running = False, healthy = False, url = Some ''http://127.0.0.1:5678'' \<rparr>,
       svc_ntfy = \<lparr> running = False, healthy = False, url = Some ''http://127.0.0.1:8080'' \<rparr>,
       svc_fetcher = \<lparr> running = False, healthy = False, url = Some ''http://127.0.0.1:3001'' \<rparr> \<rparr>"
  by (simp add: health_status_def ports0_def toString.simps nl_def failed_line_def)

lemma scripted_check:
  "checkVPSServices (scripted script) config ports files =
     (Inr (health_status ports (script (fetcherProbe ports)) (script (ntfyProbe ports))
                         (script (n8nProbe ports)) (script postgresProbe)),
      \<lparr> fs = files,
        journal = health_events ports (script (fetcherProbe ports)) (script (ntfyProbe ports))
                         (script (n8nProbe ports)) (script postgresProbe) \<rparr>)"
  by (simp add: run_defs scripted_def health_events_def health_status_def)


lemma down_script_probes:
  "down_script (fetcherProbe ports) = failed_line"
  "down_script (ntfyProbe ports) = failed_line"
  "down_script (n8nProbe ports) = failed_line"
  "down_script postgresProbe = failed_line"
  by (simp_all add: down_script_def envProbe_def fetcherProbe_def ntfyProbe_def n8nProbe_def
        postgresProbe_def)

lemma mixed_status:
  "health_status ports0 mixed_body mixed_body mixed_body mixed_body =
     \<lparr> svc_postgres = \<lparr> running = False, healthy = False \<rparr>,
       svc_n8n = \<lparr> running = False, healthy = False, url = Some ''http://127.0.0.1:5678'' \<rparr>,
       svc_ntfy = \<lparr> running = True, healthy = True, url = Some ''http://127.0.0.1:8080'' \<rparr>,
       svc_fetcher = \<lparr> running = False, healthy = False, url = Some ''http://127.0.0.1:3001'' \<rparr> \<rparr>"
  by (simp add: health_status_def ports0_def toString.simps mixed_body_def)

subsection \<open>Failure and success of a deployment\<close>

lemma grow_push: "hoare (logs_extend ls) (logs_push l) (\<lambda>_. logs_extend ls) (logs_extend_err ls)"
  by (simp add: hoare_def logs_push_def logs_extend_def)

lemma grow_exec:
  "hoare (logs_extend ls) (execCommand env cmd) (\<lambda>_. logs_extend ls) (logs_extend_err ls)"
  by (simp add: hoare_def execCommand_eq logs_extend_def logs_extend_err_def split: sum.splits)

lemma grow_upload:
  "hoare (logs_extend ls) (uploadFile env content path) (\<lambda>_. logs_extend ls) (logs_extend_err ls)"
  by (simp add: hoare_def uploadFile_def logs_extend_def logs_extend_err_def split: option.splits)

lemma grow_end: "hoare (logs_extend ls) end_session (\<lambda>_. logs_extend ls) (logs_extend_err ls)"
  by (simp add: hoare_def end_session_def client_end_def logs_extend_def)

lemma exact_push_prim: "hoare (logs_are ls) (logs_push l) (\<lambda>_. logs_are (ls @ [l])) E"
  by (simp add: hoare_def logs_push_def logs_are_def)

lemma exact_push:
  "(\<And>u. hoare (logs_are (ls @ [l])) (k u) Q E) \<Longrightarrow> hoare (logs_are ls) (andThen (logs_push l) k) Q E"
  by (rule hoare_andThen [OF exact_push_prim])

lemma logs_weaken: "hoare (logs_extend ls) m Q E \<Longrightarrow> hoare (logs_are ls) m Q E"
  by (auto simp: hoare_def logs_are_def logs_extend_def)

lemma deploy_try_logs_raw:
  "hoare (logs_are []) (deploy_try env b d ports)
     (\<lambda>_. logs_extend (([] @ [''Connected to VPS'']) @ [''Creating directory structure...'']))
     (logs_extend_err (([] @ [''Connected to VPS'']) @ [''Creating directory structure...'']))"
  unfolding deploy_try_def
  apply (rule exact_push logs_weaken hoare_andThen hoare_if hoare_let grow_push grow_exec
              grow_upload grow_end hoare_returns)+
  apply assumption
  done

lemma initial_frame:
  "client.extend \<lparr> fs = files, journal = [] \<rparr> (frame.fields []) =
     \<lparr> fs = files, journal = [], logs_so_far = [] \<rparr>"
  by (simp add: client.extend_def frame.fields_def)

lemma deployToVPS_failure_logs:
  assumes conn: "connect_reply env config = None"
    and run: "deployToVPS env b d config ports files = (Inr r, c)"
    and bad: "\<not> success r"
  shows "\<exists>f. deploy_try env b d ports \<lparr> fs = files, journal = [], logs_so_far = [] \<rparr>
                = (Inl (message r), f)
           \<and> logs r = logs_so_far f @ [''Error: '' @ message r]
           \<and> prefix [''Connected to VPS'', ''Creating directory structure...''] (logs_so_far f)"
proof -
  let ?f0 = "\<lparr> fs = files, journal = [], logs_so_far = [] \<rparr>"
  obtain out f where body: "deploy_try env b d ports ?f0 = (out, f)"
    by (cases "deploy_try env b d ports ?f0") auto
  have "logs_are [] ?f0" by (simp add: logs_are_def)
  from hoareD [OF deploy_try_logs_raw this body]
  have grown: "prefix [''Connected to VPS'', ''Creating directory structure...''] (logs_so_far f)"
    by (simp add: logs_extend_def logs_extend_err_def split: sum.splits)
  from hoareD [OF deploy_try_run [of "[]"] _ body]
  have ok: "out = Inr r' \<Longrightarrow> success r'" for r'
    by (simp add: running_from_def clean_def)
  show ?thesis
  proof (cases out)
    case (Inr r')
    with run conn body have "r' = r"
      by (auto simp: deployToVPS_def connectSSH_def initial_frame)
    with ok [OF Inr] bad show ?thesis by simp
  next
    case (Inl e)
    with run conn body have "message r = e" "logs r = logs_so_far f @ [''Error: '' @ e]"
      by (auto simp: deployToVPS_def connectSSH_def initial_frame Let_def client_end_def)
    with body Inl grown show ?thesis by simp
  qed
qed

text \<open>
  Claim C3: when a request of the deployment fails (an exception is raised in the
  \<open>try\<close> block), no further request is made, the session is closed, and the result has
  \<open>success = false\<close>, the message of the error, and all four services not running and not
  healthy. The log of the result is the log that the \<open>try\<close> block had written when it
  failed, with the line of the error appended; in particular it starts with the two lines
  written before the first request.
\<close>

theorem deployToVPS_failure:
  assumes "connect_reply env config = None"
    and "deployToVPS env b d config ports files = (res, c)"
    and "\<exists>ev\<in>set (journal c). failure ev \<noteq> None"
  shows "\<exists>r pre ev e f. res = Inr r \<and> journal c = pre @ [ev, End]
           \<and> (\<forall>x\<in>set pre. failure x = None \<and> x \<noteq> End) \<and> failure ev = Some e
           \<and> success r = False \<and> message r = e
           \<and> logs r \<noteq> [] \<and> last (logs r) = ''Error: '' @ e \<and> services r = all_down
           \<and> deploy_try env b d ports \<lparr> fs = files, journal = [], logs_so_far = [] \<rparr>
               = (Inl e, f)
           \<and> logs r = logs_so_far f @ [''Error: '' @ e]
           \<and> prefix [''Connected to VPS'', ''Creating directory structure...''] (logs r)"
proof -
  from deployToVPS_outcome [OF assms(1,2)]
  consider (ok) r pre where "res = Inr r" "journal c = pre @ [End]" "clean pre"
    | (bad) r pre ev e where "res = Inr r" "journal c = pre @ [ev, End]" "clean pre"
        "failure ev = Some e" "\<not> success r" "message r = e" "logs r \<noteq> []"
        "last (logs r) = ''Error: '' @ e" "services r = all_down"
    by blast
  then show ?thesis
  proof cases
    case ok
    with assms(3) have False
      by (auto dest: clean_no_failure)
    then show ?thesis ..
  next
    case bad
    from assms(2) bad(1) have run: "deployToVPS env b d config ports files = (Inr r, c)"
      by simp
    from deployToVPS_failure_logs [OF assms(1) run bad(5)] bad(6)
    obtain f where f: "deploy_try env b d ports \<lparr> fs = files, journal = [], logs_so_far = [] \<rparr>
                         = (Inl e, f)"
      "logs r = logs_so_far f @ [''Error: '' @ e]"
      "prefix [''Connected to VPS'', ''Creating directory structure...''] (logs_so_far f)"
      by auto
    from f(2,3) have "prefix [''Connected to VPS'', ''Creating directory structure...''] (logs r)"
      by (simp add: prefix_prefix)
    with bad f(1,2) have "res = Inr r \<and> journal c = pre @ [ev, End]
           \<and> (\<forall>x\<in>set pre. failure x = None \<and> x \<noteq> End) \<and> failure ev = Some e
           \<and> success r = False \<and> message r = e
           \<and> logs r \<noteq> [] \<and> last (logs r) = ''Error: '' @ e \<and> services r = all_down
           \<and> deploy_try env b d ports \<lparr> fs = files, journal = [], logs_so_far = [] \<rparr>
               = (Inl e, f)
           \<and> logs r = logs_so_far f @ [''Error: '' @ e]
           \<and> prefix [''Connected to VPS'', ''Creating directory structure...''] (logs r)"
      by (auto dest: clean_no_failure)
    then show ?thesis by blast
  qed
qed

theorem deployToVPS_failure_witness:
  "\<exists>r pre ev e f.
     fst (deployToVPS readonly_host artifacts0 draws0 config0 ports0 Map.empty) = Inr r
     \<and> journal (snd (deployToVPS readonly_host artifacts0 draws0 config0 ports0 Map.empty))
         = pre @ [ev, End]
     \<and> (\<forall>x\<in>set pre. failure x = None \<and> x \<noteq> End) \<and> failure ev = Some e
     \<and> success r = False \<and> message r = e
     \<and> logs r \<noteq> [] \<and> last (logs r) = ''Error: '' @ e \<and> services r = all_down
     \<and> deploy_try readonly_host artifacts0 draws0 ports0
          \<lparr> fs = Map.empty, journal = [], logs_so_far = [] \<rparr> = (Inl e, f)
     \<and> logs r = logs_so_far f @ [''Error: '' @ e]
     \<and> prefix [''Connected to VPS'', ''Creating directory structure...''] (logs r)"
proof -
  let ?run = "deployToVPS readonly_host artifacts0 draws0 config0 ports0 Map.empty"
  have conn: "connect_reply readonly_host config0 = None"
    by (simp add: readonly_host_def)
  have run: "?run = (fst ?run, snd ?run)"
    by simp
  have failed: "\<exists>ev\<in>set (journal (snd ?run)). failure ev \<noteq> None"
    by (simp add: readonly_run)
  from deployToVPS_failure [OF conn run failed] show ?thesis .
qed

text \<open>
  Claim C10: when no request of the deployment fails, the result has \<open>success = true\<close> and
  the message "Deployment completed successfully", whatever the health commands print:
  the outputs of the commands are not restricted.
\<close>

theorem deployToVPS_success:
  assumes "connect_reply env config = None"
    and "deployToVPS env b d config ports files = (res, c)"
    and "\<forall>ev\<in>set (journal c). failure ev = None"
  shows "\<exists>r. res = Inr r \<and> success r \<and> message r = ''Deployment completed successfully''"
proof -
  from deployToVPS_outcome [OF assms(1,2)]
  consider (ok) r where "res = Inr r" "success r"
      "message r = ''Deployment completed successfully''"
    | (bad) pre ev e where "journal c = pre @ [ev, End]" "failure ev = Some e"
    by blast
  then show ?thesis
  proof cases
    case ok
    then show ?thesis by simp
  next
    case bad
    with assms(3) have False by simp
    then show ?thesis ..
  qed
qed

theorem deployToVPS_success_witness:
  "\<exists>r. fst (deployToVPS down_host artifacts0 draws0 config0 ports0 Map.empty) = Inr r
       \<and> success r \<and> message r = ''Deployment completed successfully''
       \<and> \<not> running (svc_postgres (services r)) \<and> \<not> running (svc_n8n (services r))
       \<and> \<not> running (svc_ntfy (services r)) \<and> \<not> running (svc_fetcher (services r))"
proof -
  let ?run = "deployToVPS down_host artifacts0 draws0 config0 ports0 Map.empty"
  have conn: "connect_reply down_host config0 = None"
    by (simp add: down_host_def scripted_def)
  have run: "?run = (fst ?run, snd ?run)"
    by simp
  have clean: "\<forall>ev\<in>set (journal (snd ?run)). failure ev = None"
    by (simp add: down_deploy health_events_def)
  from deployToVPS_success [OF conn run clean]
  obtain r where r: "fst ?run = Inr r" "success r"
    "message r = ''Deployment completed successfully''"
    by blast
  from r(1) have "services r = health_status ports0 failed_line failed_line
                                  failed_line failed_line"
    by (auto simp: down_deploy)
  with r show ?thesis
    by (simp add: down_status)
qed

subsection \<open>The health prober\<close>

text \<open>
  Claim C7: for the same ports, when the session of \<open>checkVPSServices\<close> sees the same
  commands with the same outputs as the health-check step of a deployment (its journal is
  the end of the journal of the deployment), it returns exactly the per-service status
  record of the deployment.
\<close>

theorem probe_agrees_with_deploy:
  assumes deploy: "deployToVPS env b d config ports files = (Inr r, c)"
    and ok: "success r"
    and conn: "connect_reply env' config' = None"
    and check: "checkVPSServices env' config' ports files' = (res', c')"
    and same: "suffix (journal c') (journal c)"
  shows "res' = Inr (services r)"
proof -
  from deployToVPS_health [OF deploy ok]
  obtain pre fh nh eh ph where
    jc: "journal c = pre @ health_events ports fh nh eh ph" and
    sr: "services r = health_status ports fh nh eh ph"
    by blast
  from same obtain pre' where jj: "journal c = pre' @ journal c'"
    by (auto simp: suffix_def)
  from checkVPSServices_outcome [OF conn check]
  consider (ok) fh' nh' eh' ph' where "res' = Inr (health_status ports fh' nh' eh' ph')"
      "journal c' = health_events ports fh' nh' eh' ph'"
    | (bad) e pre'' ev where "res' = Inl e" "journal c' = pre'' @ [ev, End]" "failure ev = Some e"
    by blast
  then show ?thesis
  proof cases
    case ok
    from jc jj ok(2)
    have "pre @ health_events ports fh nh eh ph = pre' @ health_events ports fh' nh' eh' ph'"
      by simp
    moreover have "length (health_events ports fh nh eh ph) = length (health_events ports fh' nh' eh' ph')"
      by (simp add: health_events_def)
    ultimately have "health_events ports fh nh eh ph = health_events ports fh' nh' eh' ph'"
      by simp
    then have "fh = fh'" "nh = nh'" "eh = eh'" "ph = ph'"
      by (simp_all add: health_events_def)
    with ok(1) sr show ?thesis by simp
  next
    case bad
    from jc jj bad(2)
    have "(pre' @ pre'') @ [ev, End]
          = (pre @ [Exec (fetcherProbe ports) (Inr fh), Exec (ntfyProbe ports) (Inr nh),
                    Exec (n8nProbe ports) (Inr eh)]) @ [Exec postgresProbe (Inr ph), End]"
      by (simp add: health_events_def)
    then have "ev = Exec postgresProbe (Inr ph)"
      by simp
    with bad(3) have False by simp
    then show ?thesis ..
  qed
qed


theorem probe_agrees_with_deploy_witness:
  "\<exists>r. fst (deployToVPS down_host artifacts0 draws0 config0 ports0 Map.empty) = Inr r
       \<and> success r
       \<and> fst (checkVPSServices down_host config0 ports0 Map.empty) = Inr (services r)"
proof -
  let ?D = "deployToVPS down_host artifacts0 draws0 config0 ports0 Map.empty"
  let ?C = "checkVPSServices down_host config0 ports0 Map.empty"
  obtain r c pre where deploy: "?D = (Inr r, c)" and ok: "success r"
    and jc: "journal c = pre @ health_events ports0 failed_line failed_line
                                 failed_line failed_line"
    by (simp add: down_deploy)
  have conn: "connect_reply down_host config0 = None"
    by (simp add: down_host_def scripted_def)
  have check: "?C = (fst ?C, snd ?C)"
    by simp
  have "journal (snd ?C) = health_events ports0 failed_line failed_line
                             failed_line failed_line"
    by (simp add: down_host_def scripted_check down_script_probes)
  with jc have same: "suffix (journal (snd ?C)) (journal c)"
    by (simp add: suffix_def)
  from probe_agrees_with_deploy [OF deploy ok conn check same] deploy ok
  show ?thesis by simp
qed

text \<open>
  Claim C5, as stated: the ntfy service is reported healthy exactly when the body of its
  health response does not contain "failed". It fails for a body that contains both
  "healthy" and "failed": the service is reported healthy.
\<close>

theorem ntfy_health_counterexample:
  "fst (checkVPSServices mixed_host config0 ports0 Map.empty) =
     Inr \<lparr> svc_postgres = \<lparr> running = False, healthy = False \<rparr>,
           svc_n8n = \<lparr> running = False, healthy = False, url = Some ''http://127.0.0.1:5678'' \<rparr>,
           svc_ntfy = \<lparr> running = True, healthy = True, url = Some ''http://127.0.0.1:8080'' \<rparr>,
           svc_fetcher = \<lparr> running = False, healthy = False, url = Some ''http://127.0.0.1:3001'' \<rparr> \<rparr>
   \<and> journal (snd (checkVPSServices mixed_host config0 ports0 Map.empty)) =
       [Exec (fetcherProbe ports0) (Inr mixed_body), Exec (ntfyProbe ports0) (Inr mixed_body),
        Exec (n8nProbe ports0) (Inr mixed_body), Exec postgresProbe (Inr mixed_body), End]
   \<and> str_includes mixed_body ''failed''"
  by (simp add: mixed_host_def scripted_check mixed_status health_events_def)
     (simp add: mixed_body_def)

text \<open>
  Claim C5, amended: the ntfy service is reported healthy exactly when the body of its
  health response contains "healthy" or does not contain "failed"; the body "failed" gives
  not healthy and the empty body gives healthy. This holds for \<open>checkVPSServices\<close> and for
  the health-check step of a successful \<open>deployToVPS\<close>; the body is the output that the
  journal records for the ntfy command.
\<close>

theorem ntfy_health_heuristic:
  "(checkVPSServices env config ports files = (Inr s, c) \<longrightarrow>
      (\<exists>fh nh eh ph. journal c = health_events ports fh nh eh ph
         \<and> (healthy (svc_ntfy s) \<longleftrightarrow> str_includes nh ''healthy'' \<or> \<not> str_includes nh ''failed'')
         \<and> running (svc_ntfy s) = healthy (svc_ntfy s)
         \<and> (nh = ''failed'' \<longrightarrow> \<not> healthy (svc_ntfy s))
         \<and> (nh = [] \<longrightarrow> healthy (svc_ntfy s))))
   \<and> (deployToVPS env b d config ports files = (Inr r, c2) \<and> success r \<longrightarrow>
      (\<exists>pre fh nh eh ph. journal c2 = pre @ health_events ports fh nh eh ph
         \<and> (healthy (svc_ntfy (services r))
              \<longleftrightarrow> str_includes nh ''healthy'' \<or> \<not> str_includes nh ''failed'')
         \<and> running (svc_ntfy (services r)) = healthy (svc_ntfy (services r))
         \<and> (nh = ''failed'' \<longrightarrow> \<not> healthy (svc_ntfy (services r)))
         \<and> (nh = [] \<longrightarrow> healthy (svc_ntfy (services r)))))"
proof (intro conjI impI)
  assume check: "checkVPSServices env config ports files = (Inr s, c)"
  then have conn: "connect_reply env config = None"
    by (auto simp: checkVPSServices_def connectSSH_def split: option.splits)
  from checkVPSServices_outcome [OF conn check]
  obtain fh nh eh ph where "s = health_status ports fh nh eh ph"
    "journal c = health_events ports fh nh eh ph"
    by auto
  then show "\<exists>fh nh eh ph. journal c = health_events ports fh nh eh ph
         \<and> (healthy (svc_ntfy s) \<longleftrightarrow> str_includes nh ''healthy'' \<or> \<not> str_includes nh ''failed'')
         \<and> running (svc_ntfy s) = healthy (svc_ntfy s)
         \<and> (nh = ''failed'' \<longrightarrow> \<not> healthy (svc_ntfy s))
         \<and> (nh = [] \<longrightarrow> healthy (svc_ntfy s))"
    by (intro exI [of _ fh] exI [of _ nh] exI [of _ eh] exI [of _ ph])
       (simp add: health_status_def Let_def)
next
  assume "deployToVPS env b d config ports files = (Inr r, c2) \<and> success r"
  then have deploy: "deployToVPS env b d config ports files = (Inr r, c2)" and ok: "success r"
    by simp_all
  from deployToVPS_health [OF deploy ok]
  obtain pre fh nh eh ph where "journal c2 = pre @ health_events ports fh nh eh ph"
    "services r = health_status ports fh nh eh ph"
    by blast
  then show "\<exists>pre fh nh eh ph. journal c2 = pre @ health_events ports fh nh eh ph
         \<and> (healthy (svc_ntfy (services r))
              \<longleftrightarrow> str_includes nh ''healthy'' \<or> \<not> str_includes nh ''failed'')
         \<and> running (svc_ntfy (services r)) = healthy (svc_ntfy (services r))
         \<and> (nh = ''failed'' \<longrightarrow> \<not> healthy (svc_ntfy (services r)))
         \<and> (nh = [] \<longrightarrow> healthy (svc_ntfy (services r)))"
    by (intro exI [of _ pre] exI [of _ fh] exI [of _ nh] exI [of _ eh] exI [of _ ph])
       (simp add: health_status_def Let_def)
qed


theorem ntfy_health_heuristic_witness:
  "(\<exists>s. fst (checkVPSServices failed_host config0 ports0 Map.empty) = Inr s
        \<and> \<not> healthy (svc_ntfy s))
   \<and> (\<exists>s. fst (checkVPSServices silent_host config0 ports0 Map.empty) = Inr s
        \<and> healthy (svc_ntfy s))
   \<and> (\<exists>r. fst (deployToVPS down_host artifacts0 draws0 config0 ports0 Map.empty) = Inr r
        \<and> success r \<and> \<not> healthy (svc_ntfy (services r)))"
proof (intro conjI)
  let ?s = "health_status ports0 ''failed'' ''failed'' ''failed'' ''failed''"
  let ?c = "\<lparr> fs = Map.empty, journal = health_events ports0 ''failed'' ''failed'' ''failed'' ''failed'' \<rparr>"
  have run: "checkVPSServices failed_host config0 ports0 Map.empty = (Inr ?s, ?c)"
    by (simp add: failed_host_def scripted_check)
  with ntfy_health_heuristic [of failed_host config0 ports0 Map.empty ?s ?c]
  obtain fh nh eh ph where
    "journal ?c = health_events ports0 fh nh eh ph" "nh = ''failed'' \<longrightarrow> \<not> healthy (svc_ntfy ?s)"
    by blast
  then have "\<not> healthy (svc_ntfy ?s)"
    by (auto simp: health_events_def)
  with run show "\<exists>s. fst (checkVPSServices failed_host config0 ports0 Map.empty) = Inr s
        \<and> \<not> healthy (svc_ntfy s)"
    by simp
next
  let ?s = "health_status ports0 [] [] [] []"
  let ?c = "\<lparr> fs = Map.empty, journal = health_events ports0 [] [] [] [] \<rparr>"
  have run: "checkVPSServices silent_host config0 ports0 Map.empty = (Inr ?s, ?c)"
    by (simp add: silent_host_def scripted_check)
  with ntfy_health_heuristic [of silent_host config0 ports0 Map.empty ?s ?c]
  obtain fh nh eh ph where
    "journal ?c = health_events ports0 fh nh eh ph" "nh = [] \<longrightarrow> healthy (svc_ntfy ?s)"
    by blast
  then have "healthy (svc_ntfy ?s)"
    by (auto simp: health_events_def)
  with run show "\<exists>s. fst (checkVPSServices silent_host config0 ports0 Map.empty) = Inr s
        \<and> healthy (svc_ntfy s)"
    by simp
next
  obtain r c pre where run: "deployToVPS down_host artifacts0 draws0 config0 ports0 Map.empty = (Inr r, c)"
    and ok: "success r"
    and jc: "journal c = pre @ health_events ports0 failed_line failed_line failed_line failed_line"
    by (simp add: down_deploy)
  from ntfy_health_heuristic [of down_host config0 ports0 Map.empty _ _ artifacts0 draws0 r c] run ok
  obtain pre' fh nh eh ph where
    j: "journal c = pre' @ health_events ports0 fh nh eh ph" and
    h: "healthy (svc_ntfy (services r)) \<longleftrightarrow> str_includes nh ''healthy'' \<or> \<not> str_includes nh ''failed''"
    by blast
  from j jc have "pre' @ health_events ports0 fh nh eh ph
                  = pre @ health_events ports0 failed_line failed_line failed_line failed_line"
    by simp
  then have "nh = failed_line"
    by (simp add: health_events_def)
  with h have "\<not> healthy (svc_ntfy (services r))"
    by (simp add: failed_line_def nl_def)
  with run ok show "\<exists>r. fst (deployToVPS down_host artifacts0 draws0 config0 ports0 Map.empty) = Inr r
        \<and> success r \<and> \<not> healthy (svc_ntfy (services r))"
    by simp
qed


subsection \<open>The secrets file\<close>

lemma keep_push:
  "hoare (secrets_kept x) (logs_push l) (\<lambda>_. secrets_kept x) (secrets_kept_err x)"
  by (simp add: hoare_def logs_push_def secrets_kept_def)

lemma keep_exec:
  "commands_keep_secrets env \<Longrightarrow>
     hoare (secrets_kept x) (execCommand env cmd) (\<lambda>_. secrets_kept x) (secrets_kept_err x)"
  by (simp add: hoare_def execCommand_eq secrets_kept_def secrets_kept_err_def
        commands_keep_secrets_def split: sum.splits)

lemma keep_upload:
  "path \<noteq> envPath \<Longrightarrow>
     hoare (secrets_kept x) (uploadFile env content path) (\<lambda>_. secrets_kept x) (secrets_kept_err x)"
  by (auto simp: hoare_def uploadFile_def secrets_kept_def secrets_kept_err_def
        split: prod.splits option.splits)

lemma keep_end:
  "hoare (secrets_kept x) end_session (\<lambda>_. secrets_kept x) (secrets_kept_err x)"
  by (simp add: hoare_def end_session_def client_end_def secrets_kept_def)

lemma keep_probe_prim:
  "commands_keep_secrets env \<Longrightarrow> probe_sound env \<Longrightarrow>
     hoare (secrets_kept x) (execCommand env envProbe)
       (\<lambda>out c. secrets_kept x c \<and> trim out \<noteq> ''missing'') (secrets_kept_err x)"
  by (auto simp: hoare_def execCommand_eq secrets_kept_def secrets_kept_err_def
        commands_keep_secrets_def probe_sound_def split: sum.splits)

lemma hoare_assume:
  "(C \<Longrightarrow> hoare P m Q E) \<Longrightarrow> hoare (\<lambda>s. P s \<and> C) m Q E"
  by (auto simp: hoare_def)

lemma keep_probe:
  assumes "commands_keep_secrets env" "probe_sound env"
    and "\<And>out. trim out \<noteq> ''missing'' \<Longrightarrow> hoare (secrets_kept x) (f out) Q (secrets_kept_err x)"
  shows "hoare (secrets_kept x) (andThen (execCommand env envProbe) f) Q (secrets_kept_err x)"
  by (rule hoare_andThen [OF keep_probe_prim [OF assms(1,2)]]) (rule hoare_assume, rule assms(3))

lemma deploy_try_keeps:
  assumes k: "commands_keep_secrets env" and p: "probe_sound env"
  shows "hoare (secrets_kept x) (deploy_try env b d ports)
           (\<lambda>_. secrets_kept x) (secrets_kept_err x)"
  unfolding deploy_try_def
  apply ((rule keep_probe [OF k p] hoare_andThen hoare_let keep_push keep_exec [OF k] keep_upload
                keep_end hoare_returns
          | simp add: envPath_def)+)
  done


lemma secrets_kept_iff:
  "secrets_kept x c \<longleftrightarrow>
     fs c envPath = Some x \<and> (\<forall>content r. Upload envPath content r \<notin> set (journal c))"
proof -
  have "list_all (\<lambda>ev. case ev of Upload remotePath content r \<Rightarrow> remotePath \<noteq> envPath | _ \<Rightarrow> True) evs
        \<longleftrightarrow> (\<forall>content r. Upload envPath content r \<notin> set evs)" for evs
    by (induction evs) (auto split: event.splits)
  then show ?thesis by (simp add: secrets_kept_def)
qed

lemma deployToVPS_keeps:
  assumes ex: "files envPath = Some secrets"
    and p: "probe_sound env" and k: "commands_keep_secrets env"
    and run: "deployToVPS env b d config ports files = (res, c)"
  shows "secrets_kept secrets c"
proof (cases "connect_reply env config")
  case (Some e)
  with run ex show ?thesis
    by (auto simp: deployToVPS_def connectSSH_def secrets_kept_def)
next
  case None
  let ?f0 = "client.extend \<lparr> fs = files, journal = [] \<rparr> (frame.fields [])"
  obtain out f where body: "deploy_try env b d ports ?f0 = (out, f)"
    by (cases "deploy_try env b d ports ?f0") auto
  have "secrets_kept secrets ?f0"
    using ex by (simp add: secrets_kept_def client.extend_def)
  from hoareD [OF deploy_try_keeps [OF k p] this body]
  have post: "secrets_kept secrets f"
    by (simp add: secrets_kept_err_def split: sum.splits)
  show ?thesis
  proof (cases out)
    case (Inr r)
    with None run body have "c = client.truncate f"
      by (auto simp: deployToVPS_def connectSSH_def)
    with post show ?thesis
      by (simp add: secrets_kept_def client.truncate_def)
  next
    case (Inl e)
    with None run body
    have "c = client.truncate ((client_end f)\<lparr> logs_so_far := logs_so_far (client_end f) @ [''Error: '' @ e] \<rparr>)"
      by (auto simp: deployToVPS_def connectSSH_def Let_def)
    with post show ?thesis
      by (simp add: secrets_kept_def client.truncate_def client_end_def)
  qed
qed

text \<open>
  Claim C4: on a host whose existence check is sound and whose commands do not write the
  secrets file, a deployment uploads to the path of the secrets file only if the file did
  not exist before; when it exists, the deployment makes no upload to its path and its
  content after the deployment is its content before, whether the deployment succeeds,
  fails or cannot connect.
\<close>

theorem secrets_file_never_overwritten:
  assumes "probe_sound env" and "commands_keep_secrets env"
    and "deployToVPS env b d config ports files = (res, c)"
  shows "((\<exists>content r. Upload envPath content r \<in> set (journal c)) \<longrightarrow> files envPath = None)
       \<and> (\<forall>secrets. files envPath = Some secrets \<longrightarrow>
            fs c envPath = Some secrets
            \<and> (\<forall>content r. Upload envPath content r \<notin> set (journal c)))"
proof -
  have "fs c envPath = Some secrets \<and> (\<forall>content r. Upload envPath content r \<notin> set (journal c))"
    if "files envPath = Some secrets" for secrets
    using deployToVPS_keeps [OF that assms] by (simp add: secrets_kept_iff)
  then show ?thesis
    by (cases "files envPath") auto
qed

lemmas fresh_defs = fresh_host_def artifacts0_def envProbe_def fetcherProbe_def ntfyProbe_def
  n8nProbe_def postgresProbe_def nl_def trim_def isSpace_def envPath_def

lemma fresh_first_run:
  "fs (snd (deployToVPS fresh_host artifacts0 draws0 config0 ports0 Map.empty)) envPath
     = Some (generateEnvFile draws0)"
  "Upload envPath (generateEnvFile draws0) None
     \<in> set (journal (snd (deployToVPS fresh_host artifacts0 draws0 config0 ports0 Map.empty)))"
  by (simp_all add: run_defs fresh_defs)

lemma fresh_host_sound: "probe_sound fresh_host" "commands_keep_secrets fresh_host"
  by (auto simp: probe_sound_def commands_keep_secrets_def fresh_host_def trim_def isSpace_def nl_def)

theorem secrets_file_never_overwritten_witness:
  "fs (snd (deployToVPS fresh_host artifacts0 draws0 config0 ports0 Map.empty)) envPath
     = Some (generateEnvFile draws0)
   \<and> fs (snd (deployToVPS fresh_host artifacts0 draws1 config0 ports0
               (fs (snd (deployToVPS fresh_host artifacts0 draws0 config0 ports0 Map.empty)))))
        envPath = Some (generateEnvFile draws0)
   \<and> (\<forall>content r. Upload envPath content r
         \<notin> set (journal (snd (deployToVPS fresh_host artifacts0 draws1 config0 ports0
               (fs (snd (deployToVPS fresh_host artifacts0 draws0 config0 ports0 Map.empty)))))))
   \<and> Upload envPath (generateEnvFile draws0) None
        \<in> set (journal (snd (deployToVPS fresh_host artifacts0 draws0 config0 ports0 Map.empty)))
   \<and> Map.empty envPath = (None :: string option)"
proof -
  let ?first = "deployToVPS fresh_host artifacts0 draws0 config0 ports0 Map.empty"
  let ?second = "deployToVPS fresh_host artifacts0 draws1 config0 ports0 (fs (snd ?first))"
  have run1: "?first = (fst ?first, snd ?first)" by simp
  have run2: "?second = (fst ?second, snd ?second)" by simp
  from secrets_file_never_overwritten [OF fresh_host_sound run1] fresh_first_run(2)
  have absent: "Map.empty envPath = (None :: string option)" by blast
  from secrets_file_never_overwritten [OF fresh_host_sound run2] fresh_first_run(1)
  have "fs (snd ?second) envPath = Some (generateEnvFile draws0)
        \<and> (\<forall>content r. Upload envPath content r \<notin> set (journal (snd ?second)))"
    by blast
  with fresh_first_run absent show ?thesis by simp
qed


subsection \<open>The nginx snippet\<close>

lemma str_includes_occurrences: "str_includes s sub \<longleftrightarrow> occurrences s sub \<noteq> 0"
  by (induction s) auto

lemma isDigit_digit: "d < 10 \<Longrightarrow> isDigit (''0123456789'' ! d)"
proof -
  assume "d < 10"
  then have "d \<in> {0, 1, 2, 3, 4, 5, 6, 7, 8, 9}" by auto
  then show ?thesis by (auto simp: isDigit_def)
qed

lemma toString_digits: "list_all isDigit (toString n) \<and> toString n \<noteq> []"
proof (induction n rule: toString.induct)
  case (1 n)
  show ?case
  proof (cases "n < 10")
    case True
    then show ?thesis by (simp add: toString.simps [of n] isDigit_digit)
  next
    case False
    with "1.IH" show ?thesis by (simp add: toString.simps [of n] isDigit_digit)
  qed
qed

text \<open>An occurrence of \<open>sub\<close> cannot contain a character that \<open>sub\<close> does not have.\<close>

lemma prefix_foreign: "x \<notin> set sub \<Longrightarrow> sub \<noteq> [] \<Longrightarrow> \<not> prefix sub (x # rest)"
  by (cases sub) auto

lemma prefix_before_foreign:
  "x \<notin> set sub \<Longrightarrow> prefix sub (a @ x # b) \<longleftrightarrow> prefix sub a"
proof (induction a arbitrary: sub)
  case Nil
  then show ?case by (cases sub) auto
next
  case (Cons c a)
  then show ?case by (cases sub) auto
qed

lemma occurrences_foreign:
  "x \<notin> set sub \<Longrightarrow> sub \<noteq> [] \<Longrightarrow>
     occurrences (a @ x # b) sub = occurrences a sub + occurrences b sub"
proof (induction a)
  case Nil
  then show ?case by (simp add: prefix_foreign)
next
  case (Cons c a)
  from Cons.prems(1) have "prefix sub ((c # a) @ x # b) \<longleftrightarrow> prefix sub (c # a)"
    by (rule prefix_before_foreign)
  with Cons show ?case by simp
qed

lemma occurrences_barrier:
  "set p \<inter> set sub = {} \<Longrightarrow> p \<noteq> [] \<Longrightarrow> sub \<noteq> [] \<Longrightarrow>
     occurrences (a @ p @ b) sub = occurrences a sub + occurrences b sub"
proof (induction p arbitrary: a)
  case Nil
  then show ?case by simp
next
  case (Cons x p)
  show ?case
  proof (cases "p = []")
    case True
    with Cons.prems show ?thesis by (simp add: occurrences_foreign)
  next
    case False
    from Cons.prems have x: "x \<notin> set sub" and p: "set p \<inter> set sub = {}" by auto
    have "occurrences (a @ (x # p) @ b) sub = occurrences ((a @ [x]) @ p @ b) sub" by simp
    also have "\<dots> = occurrences (a @ [x]) sub + occurrences b sub"
      using Cons.IH [OF p False Cons.prems(3)] .
    also have "occurrences (a @ [x]) sub = occurrences a sub"
      using occurrences_foreign [OF x Cons.prems(3), of a "[]"] Cons.prems(3) by simp
    finally show ?thesis .
  qed
qed

lemma occurrences_concat_barrier:
  assumes "set p \<inter> set sub = {}" "p \<noteq> []" "sub \<noteq> []"
  shows "occurrences (concat (l # p # rest)) sub = occurrences l sub + occurrences (concat rest) sub"
  using occurrences_barrier [OF assms, of l "concat rest"] by simp

lemma barrier_nl: "CHR 0x0A \<notin> set sub \<Longrightarrow> set nl \<inter> set sub = {} \<and> nl \<noteq> []"
  by (simp add: nl_def)

lemma barrier_toString:
  "list_all (\<lambda>c. \<not> isDigit c) sub \<Longrightarrow> set (toString n) \<inter> set sub = {} \<and> toString n \<noteq> []"
  using toString_digits [of n] by (auto simp: list_all_iff)

lemma occurrences_template:
  assumes "CHR 0x0A \<notin> set sub" "list_all (\<lambda>c. \<not> isDigit c) sub" "sub \<noteq> []"
  shows "occurrences (concat (l # nl # rest)) sub = occurrences l sub + occurrences (concat rest) sub"
    and "occurrences (concat (l # toString n # rest)) sub = occurrences l sub + occurrences (concat rest) sub"
    and "occurrences (concat (nl # rest)) sub = occurrences (concat rest) sub"
proof -
  from barrier_nl [OF assms(1)] have nlb: "set nl \<inter> set sub = {}" "nl \<noteq> []" by simp_all
  from barrier_toString [OF assms(2)] have nb: "set (toString n) \<inter> set sub = {}" "toString n \<noteq> []"
    by simp_all
  show "occurrences (concat (l # nl # rest)) sub = occurrences l sub + occurrences (concat rest) sub"
    by (rule occurrences_concat_barrier [OF nlb assms(3)])
  show "occurrences (concat (l # toString n # rest)) sub = occurrences l sub + occurrences (concat rest) sub"
    by (rule occurrences_concat_barrier [OF nb assms(3)])
  show "occurrences (concat (nl # rest)) sub = occurrences (concat rest) sub"
    using occurrences_barrier [OF nlb assms(3), of "[]" "concat rest"] assms(3) by simp
qed

lemma proxy_pass_plain:
  "CHR 0x0A \<notin> set ''proxy_pass''" "list_all (\<lambda>c. \<not> isDigit c) ''proxy_pass''" "''proxy_pass'' \<noteq> []"
  by (simp_all add: isDigit_def)

lemma count_proxy_pass: "occurrences (generateNginxConfig ports) ''proxy_pass'' = 5"
  unfolding generateNginxConfig_def
  by (simp add: occurrences_template [OF proxy_pass_plain] del: concat.simps(2))

lemma commented_plain:
  "CHR 0x0A \<notin> set ''#         proxy_pass''"
  "list_all (\<lambda>c. \<not> isDigit c) ''#         proxy_pass''" "''#         proxy_pass'' \<noteq> []"
  by (simp_all add: isDigit_def)

lemma count_commented: "occurrences (generateNginxConfig ports) ''#         proxy_pass'' = 2"
  unfolding generateNginxConfig_def
  by (simp add: occurrences_template [OF commented_plain] del: concat.simps(2))

lemma reverse_proxy_plain:
  "CHR 0x0A \<notin> set ''reverse_proxy''" "list_all (\<lambda>c. \<not> isDigit c) ''reverse_proxy''"
  "''reverse_proxy'' \<noteq> []"
  by (simp_all add: isDigit_def)

lemma count_reverse_proxy: "occurrences (generateNginxConfig ports) ''reverse_proxy'' = 0"
  unfolding generateNginxConfig_def
  by (simp add: occurrences_template [OF reverse_proxy_plain] del: concat.simps(2))


text \<open>
  Claim C8, as stated: the nginx snippet contains "proxy_pass" exactly three times. It
  fails for the default ports (and for all others): the template has the directive five
  times, three in the \<open>location\<close> blocks and two in the commented-out subdomain servers.
\<close>

theorem nginx_proxy_pass_counterexample:
  "\<not> (\<not> str_includes (generateNginxConfig ports0) ''reverse_proxy''
        \<and> occurrences (generateNginxConfig ports0) ''proxy_pass'' = 3)"
  by (simp add: count_proxy_pass)

text \<open>
  Claim C8, amended: for every port assignment the nginx snippet does not contain
  "reverse_proxy" and contains "proxy_pass" exactly five times; two of the five stand in
  comment lines (after "#" and nine blanks), which leaves three directives, one per proxied
  service.
\<close>

theorem nginx_snippet_directives:
  "\<not> str_includes (generateNginxConfig ports) ''reverse_proxy''
   \<and> occurrences (generateNginxConfig ports) ''proxy_pass'' = 5
   \<and> occurrences (generateNginxConfig ports) ''#         proxy_pass'' = 2"
  by (simp add: str_includes_occurrences count_reverse_proxy count_proxy_pass count_commented)


subsection \<open>The listening-ports table\<close>

lemma split_ws_nonempty: "split_ws s \<noteq> []"
  by (induction s rule: split_ws.induct) (auto split: list.splits)

lemma split_ws_hd: "s \<noteq> [] \<Longrightarrow> \<not> isSpace (hd s) \<Longrightarrow> hd (split_ws s) \<noteq> []"
  by (cases s) (auto split: list.splits)

lemma dropWhile_last: "dropWhile P xs \<noteq> [] \<Longrightarrow> last (dropWhile P xs) = last xs"
  by (induction xs) (auto split: if_splits)

lemma split_ws_tl:
  "s \<noteq> [] \<Longrightarrow> \<not> isSpace (last s) \<Longrightarrow> [] \<notin> set (tl (split_ws s))"
proof (induction s rule: split_ws.induct)
  case 1
  then show ?case by simp
next
  case (2 c cs)
  show ?case
  proof (cases "isSpace c")
    case True
    let ?d = "dropWhile isSpace cs"
    from True "2.prems" have cs: "cs \<noteq> []" by auto
    with "2.prems" have lastcs: "\<not> isSpace (last cs)" by simp
    have d: "?d \<noteq> []"
    proof
      assume "?d = []"
      then have "\<forall>x\<in>set cs. isSpace x" by (simp add: dropWhile_eq_Nil_conv)
      with cs lastcs show False using last_in_set by blast
    qed
    then have "\<not> isSpace (hd ?d)" by (rule hd_dropWhile)
    with d have h: "hd (split_ws ?d) \<noteq> []" by (rule split_ws_hd)
    from d lastcs have "\<not> isSpace (last ?d)" by (simp add: dropWhile_last)
    with "2.IH"(1) True d have t: "[] \<notin> set (tl (split_ws ?d))" by simp
    from h t split_ws_nonempty [of ?d] have "[] \<notin> set (split_ws ?d)"
      by (cases "split_ws ?d") auto
    with True show ?thesis by simp
  next
    case False
    show ?thesis
    proof (cases "cs = []")
      case True
      with False show ?thesis by simp
    next
      case nonempty: False
      with "2.prems" have "\<not> isSpace (last cs)" by simp
      with "2.IH"(2) False nonempty have "[] \<notin> set (tl (split_ws cs))" by simp
      with False show ?thesis by (auto split: list.splits)
    qed
  qed
qed

lemma trim_ends: "trim s = [] \<or> (\<not> isSpace (hd (trim s)) \<and> \<not> isSpace (last (trim s)))"
proof (cases "trim s = []")
  case True
  then show ?thesis by simp
next
  case False
  let ?u = "dropWhile isSpace s"
  let ?v = "dropWhile isSpace (rev ?u)"
  from False have v: "?v \<noteq> []" by (simp add: trim_def)
  then have hv: "\<not> isSpace (hd ?v)" by (rule hd_dropWhile)
  have u: "?u \<noteq> []"
  proof
    assume empty: "?u = []"
    have "?v = []" unfolding empty by simp
    with v show False by simp
  qed
  then have hu: "\<not> isSpace (hd ?u)" by (rule hd_dropWhile)
  have "last (trim s) = hd ?v" using v by (simp add: trim_def last_rev)
  moreover have "hd (trim s) = last ?v" using v by (simp add: trim_def hd_rev)
  moreover have "last ?v = last (rev ?u)" using v by (rule dropWhile_last)
  moreover have "last (rev ?u) = hd ?u" using u by (simp add: last_rev)
  ultimately show ?thesis using hv hu by simp
qed

lemma lineFields_nonempty: "2 \<le> length (lineFields line) \<Longrightarrow> [] \<notin> set (lineFields line)"
proof -
  assume len: "2 \<le> length (lineFields line)"
  have ne: "trim line \<noteq> []"
  proof
    assume "trim line = []"
    with len show False by (simp add: lineFields_def)
  qed
  with trim_ends [of line] have "\<not> isSpace (hd (trim line))" "\<not> isSpace (last (trim line))"
    by simp_all
  with ne have "hd (split_ws (trim line)) \<noteq> []" "[] \<notin> set (tl (split_ws (trim line)))"
    by (simp_all add: split_ws_hd split_ws_tl)
  with split_ws_nonempty [of "trim line"] show ?thesis
    by (cases "split_ws (trim line)") (auto simp: lineFields_def)
qed

lemma colon_no_digit: "\<not> isDigit (CHR '':'')"
  by (simp add: isDigit_def)

lemma trailingDigits_eq:
  "list_all isDigit ds \<Longrightarrow> trailingDigits (pre @ CHR '':'' # ds) = ds"
proof -
  assume "list_all isDigit ds"
  then have "takeWhile isDigit (rev ds @ CHR '':'' # rev pre) = rev ds"
    by (subst takeWhile_append2) (auto simp: list_all_iff colon_no_digit)
  then show ?thesis by (simp add: trailingDigits_def)
qed

lemma portMatch_sound:
  "portMatch s = Some ds \<Longrightarrow> \<exists>pre. s = pre @ CHR '':'' # ds \<and> ds \<noteq> [] \<and> list_all isDigit ds"
proof (induction s)
  case Nil
  then show ?case by simp
next
  case (Cons c s)
  show ?case
  proof (cases "c = CHR '':'' \<and> s \<noteq> [] \<and> list_all isDigit s")
    case True
    with Cons.prems have "ds = s" by simp
    with True show ?thesis by (intro exI [of _ "[]"]) simp
  next
    case False
    with Cons.prems have "portMatch s = Some ds" by auto
    from Cons.IH [OF this] obtain pre where "s = pre @ CHR '':'' # ds" "ds \<noteq> []" "list_all isDigit ds"
      by blast
    then show ?thesis by (intro exI [of _ "c # pre"]) simp
  qed
qed

lemma portMatch_complete:
  "ds \<noteq> [] \<Longrightarrow> list_all isDigit ds \<Longrightarrow> portMatch (pre @ CHR '':'' # ds) = Some ds"
  by (induction pre) (auto simp: colon_no_digit)

lemma portMatch_endsInPort:
  "portMatch s = (if endsInPort s then Some (trailingDigits s) else None)"
proof (cases "endsInPort s")
  case True
  then obtain pre where s: "s = pre @ CHR '':'' # trailingDigits s" and ne: "trailingDigits s \<noteq> []"
    by (auto simp: endsInPort_def suffix_def)
  have "list_all isDigit (trailingDigits s)"
    by (auto simp: trailingDigits_def list_all_iff dest: set_takeWhileD)
  from portMatch_complete [OF ne this, of pre] s True show ?thesis by simp
next
  case False
  have "portMatch s = None"
  proof (cases "portMatch s")
    case None
    then show ?thesis .
  next
    case (Some ds)
    from portMatch_sound [OF Some] obtain pre where
      s: "s = pre @ CHR '':'' # ds" and ne: "ds \<noteq> []" and dg: "list_all isDigit ds"
      by blast
    from trailingDigits_eq [OF dg, of pre] s have "trailingDigits s = ds" by simp
    with s ne have "endsInPort s" by (auto simp: endsInPort_def suffix_def)
    with False show ?thesis by simp
  qed
  with False show ?thesis by simp
qed

lemma parseLine_wellFormed:
  "parseLine acc line = (if wellFormed line then acc @ [entryOf line] else acc)"
proof (cases "4 \<le> length (lineFields line)")
  case False
  then show ?thesis by (simp add: parseLine_def wellFormed_def lineFields_def Let_def)
next
  case True
  then have ne: "[] \<notin> set (lineFields line)" by (intro lineFields_nonempty) simp
  have tok: "lineFields line ! i \<noteq> []" if "i < length (lineFields line)" for i
    using ne nth_mem [OF that] by metis
  from True have n3: "lineFields line ! 3 \<noteq> []" and n0: "lineFields line ! 0 \<noteq> []"
    and nl: "lineFields line ! (length (lineFields line) - 1) \<noteq> []"
    by (auto intro!: tok)
  from True have "lineFields line \<noteq> []" by auto
  then have lst: "lineFields line ! (length (lineFields line) - 1) = last (lineFields line)"
    by (simp add: last_conv_nth)
  from n3 have la: "localAddr (lineFields line) = Some (lineFields line ! 3)"
    by (simp add: localAddr_def)
  have "parseLine acc line =
          (case portMatch (lineFields line ! 3) of
             None \<Rightarrow> acc
           | Some ds \<Rightarrow> acc @ [\<lparr> port = parseInt ds, protocol = lineFields line ! 0,
                                  process = last (lineFields line), state = ''LISTEN'' \<rparr>])"
    using True la n0 nl lst
    by (simp add: parseLine_def lineFields_def [symmetric] Let_def split: option.splits)
  with True show ?thesis
    by (simp add: portMatch_endsInPort wellFormed_def entryOf_def)
qed

lemma foldl_parseLine:
  "foldl parseLine acc lines = acc @ map entryOf (filter wellFormed lines)"
  by (induction lines arbitrary: acc) (simp_all add: parseLine_wellFormed)

lemmas str_defs = trim_def isSpace_def nl_def lineFields_def

lemma table0_lines:
  "tableLines table0 =
     [''LISTEN 0      128          0.0.0.0:22        0.0.0.0:*     users:sshd'',
      ''garbage line'',
      ''LISTEN 0      244        127.0.0.1:5432      0.0.0.0:*     users:postgres'']"
  by (simp add: tableLines_def table0_def str_defs)

lemma fields1:
  "lineFields ''LISTEN 0      128          0.0.0.0:22        0.0.0.0:*     users:sshd''
     = [''LISTEN'', ''0'', ''128'', ''0.0.0.0:22'', ''0.0.0.0:*'', ''users:sshd'']"
  by (simp add: str_defs)

lemma fields2: "lineFields ''garbage line'' = [''garbage'', ''line'']"
  by (simp add: str_defs)

lemma fields3:
  "lineFields ''LISTEN 0      244        127.0.0.1:5432      0.0.0.0:*     users:postgres''
     = [''LISTEN'', ''0'', ''244'', ''127.0.0.1:5432'', ''0.0.0.0:*'', ''users:postgres'']"
  by (simp add: str_defs)

lemma digits1: "trailingDigits ''0.0.0.0:22'' = ''22''" "trailingDigits ''127.0.0.1:5432'' = ''5432''"
  by (simp_all add: trailingDigits_def isDigit_def)

lemma ints: "parseInt ''22'' = 22" "parseInt ''5432'' = 5432"
  by (simp_all add: parseInt_def)


text \<open>
  Claim C6: for every input text \<open>parseListeningPorts\<close> (a total function: no step of it
  can throw) drops the first line of the trimmed text and returns, in order, the entries
  of exactly the well-formed lines among the others; a line with fewer than four fields
  adds nothing to the result, and a well-formed line adds its entry.
\<close>

theorem parseListeningPorts_spec:
  "parseListeningPorts raw = map entryOf (filter wellFormed (tableLines raw))
   \<and> (length (lineFields line) < 4 \<longrightarrow> parseLine acc line = acc)
   \<and> (wellFormed line \<longrightarrow> parseLine acc line = acc @ [entryOf line])"
  by (simp add: parseListeningPorts_def tableLines_def foldl_parseLine Let_def
        parseLine_wellFormed wellFormed_def)


theorem parseListeningPorts_spec_witness:
  "parseListeningPorts table0 =
     [\<lparr> port = 22, protocol = ''LISTEN'', process = ''users:sshd'', state = ''LISTEN'' \<rparr>,
      \<lparr> port = 5432, protocol = ''LISTEN'', process = ''users:postgres'', state = ''LISTEN'' \<rparr>]
   \<and> parseLine [] ''garbage line'' = []
   \<and> parseLine [] ''LISTEN 0      128          0.0.0.0:22        0.0.0.0:*     users:sshd'' =
       [\<lparr> port = 22, protocol = ''LISTEN'', process = ''users:sshd'', state = ''LISTEN'' \<rparr>]"
proof -
  let ?row = "''LISTEN 0      128          0.0.0.0:22        0.0.0.0:*     users:sshd''"
  have short: "length (lineFields ''garbage line'') < 4"
    by (simp add: fields2)
  have wf: "wellFormed ?row"
    by (simp add: wellFormed_def fields1 endsInPort_def digits1 suffix_def)
  have wf3: "wellFormed ''LISTEN 0      244        127.0.0.1:5432      0.0.0.0:*     users:postgres''"
    by (simp add: wellFormed_def fields3 endsInPort_def digits1 suffix_def)
  have nwf: "\<not> wellFormed ''garbage line''"
    by (simp add: wellFormed_def fields2)
  from parseListeningPorts_spec [of table0 "''garbage line''" "[]"] short
  have "parseListeningPorts table0 = map entryOf (filter wellFormed (tableLines table0))"
    and skip: "parseLine [] ''garbage line'' = []"
    by simp_all
  then have table: "parseListeningPorts table0 =
     [\<lparr> port = 22, protocol = ''LISTEN'', process = ''users:sshd'', state = ''LISTEN'' \<rparr>,
      \<lparr> port = 5432, protocol = ''LISTEN'', process = ''users:postgres'', state = ''LISTEN'' \<rparr>]"
    using wf wf3 nwf
    by (simp add: table0_lines entryOf_def fields1 fields3 digits1 ints)
  from parseListeningPorts_spec [of table0 ?row "[]"] wf
  have "parseLine [] ?row = [entryOf ?row]"
    by simp
  then have row: "parseLine [] ?row =
       [\<lparr> port = 22, protocol = ''LISTEN'', process = ''users:sshd'', state = ''LISTEN'' \<rparr>]"
    by (simp add: entryOf_def fields1 digits1 ints)
  from table skip row show ?thesis by simp
qed


end
